theory Spec2Isabelle
  imports Complex_Main "HOL-Library.Log_Nat"
begin

section \<open>Common data model\<close>

text \<open>
  JavaScript errors are values \<open>new Error(message)\<close>; a rejected promise or a thrown
  exception is the left injection of a sum, a normal return the right one.
\<close>

datatype error = Error string

type_synonym 'a result = "error + 'a"

text \<open>A \<open>Date\<close> is the number of milliseconds since the epoch.\<close>

type_synonym date = nat

section \<open>RAGService: the indexing state\<close>

text \<open>
  The service holds the two private fields \<open>indexingInProgress\<close> and
  \<open>lastIndexTime\<close> (\<open>None\<close> is \<open>null\<close>) and its vector store, of any type \<open>'vs\<close>.
\<close>

record 'vs RAGService =
  vectorStore :: 'vs
  indexingInProgress :: bool
  lastIndexTime :: "date option"

record IndexingStatus =
  inProgress :: bool
  status_lastIndexTime :: "date option"
  vectorCount :: nat

definition getIndexingStatus :: "'vs RAGService \<Rightarrow> IndexingStatus" where
  "getIndexingStatus this =
     \<lparr>inProgress = indexingInProgress this,
      status_lastIndexTime = lastIndexTime this,
      vectorCount = 0\<rparr>"

text \<open>
  \<open>indexAllDocuments\<close> is an async function with one suspension point, the
  \<open>await this.strategy.indexAll()\<close>. The code before it runs without interruption when
  the function is called (\<open>indexAllDocuments_enter\<close>: the guard, and the flag set to
  true); the code after it runs when the strategy's promise settles
  (\<open>indexAllDocuments_resume\<close>: the assignment of \<open>lastIndexTime\<close> on success, the
  \<open>catch\<close> that rethrows, the \<open>finally\<close> that clears the flag). The second component
  of the result of \<open>indexAllDocuments_enter\<close> says whether the strategy was called.
\<close>

definition indexAllDocuments_enter :: "'vs RAGService \<Rightarrow> 'vs RAGService \<times> bool" where
  "indexAllDocuments_enter this =
     (if indexingInProgress this then (this, False)
      else (this\<lparr>indexingInProgress := True\<rparr>, True))"

definition indexAllDocuments_resume ::
    "unit result \<Rightarrow> date \<Rightarrow> 'vs RAGService \<Rightarrow> unit result \<times> 'vs RAGService" where
  "indexAllDocuments_resume outcome now this =
     (case outcome of
        Inr _ \<Rightarrow> (Inr (), this\<lparr>lastIndexTime := Some now, indexingInProgress := False\<rparr>)
      | Inl e \<Rightarrow> (Inl e, this\<lparr>indexingInProgress := False\<rparr>))"

text \<open>
  One whole call with nothing interleaved: \<open>indexAll\<close> is the strategy's method, acting
  on the vector store, and \<open>now\<close> is the clock when it settles.
\<close>

definition indexAllDocuments ::
    "('vs \<Rightarrow> unit result \<times> 'vs) \<Rightarrow> date \<Rightarrow> 'vs RAGService \<Rightarrow> unit result \<times> 'vs RAGService" where
  "indexAllDocuments indexAll now this =
     (case indexAllDocuments_enter this of
        (this1, False) \<Rightarrow> (Inr (), this1)
      | (this1, True) \<Rightarrow>
          (case indexAll (vectorStore this1) of
             (outcome, vs) \<Rightarrow> indexAllDocuments_resume outcome now (this1\<lparr>vectorStore := vs\<rparr>)))"

subsection \<open>Interleaved calls\<close>

text \<open>
  On the single-threaded event loop, calls of \<open>indexAllDocuments\<close> interleave only at
  the suspension point. A call is a task: \<open>Awaiting\<close> while its strategy run is in
  flight, \<open>Finished\<close> with its result afterwards. The operations the strategy performs
  on its collaborators are logged; only a task whose strategy run is in flight performs
  one.
\<close>

datatype task = Awaiting | Finished "unit result"

datatype strategy_op = Clear | FetchAllEntities | StoreBatch | Count

record process =
  service :: "unit RAGService"
  tasks :: "task list"
  performed :: "(nat \<times> strategy_op) list"

datatype event =
    Trigger
  | Perform nat strategy_op
  | Settle nat "unit result" date

definition initial :: process where
  "initial = \<lparr>service = \<lparr>vectorStore = (), indexingInProgress = False, lastIndexTime = None\<rparr>,
              tasks = [], performed = []\<rparr>"

definition step :: "event \<Rightarrow> process \<Rightarrow> process option" where
  "step ev p =
     (case ev of
        Trigger \<Rightarrow>
          (case indexAllDocuments_enter (service p) of
             (this1, False) \<Rightarrow> Some (p\<lparr>service := this1, tasks := tasks p @ [Finished (Inr ())]\<rparr>)
           | (this1, True) \<Rightarrow> Some (p\<lparr>service := this1, tasks := tasks p @ [Awaiting]\<rparr>))
      | Perform i opn \<Rightarrow>
          (if i < length (tasks p) \<and> tasks p ! i = Awaiting
           then Some (p\<lparr>performed := performed p @ [(i, opn)]\<rparr>)
           else None)
      | Settle i outcome now \<Rightarrow>
          (if i < length (tasks p) \<and> tasks p ! i = Awaiting
           then (case indexAllDocuments_resume outcome now (service p) of
                   (r, this1) \<Rightarrow> Some (p\<lparr>service := this1, tasks := (tasks p)[i := Finished r]\<rparr>))
           else None))"

fun run :: "event list \<Rightarrow> process \<Rightarrow> process option" where
  "run [] p = Some p"
| "run (ev # evs) p = (case step ev p of None \<Rightarrow> None | Some p' \<Rightarrow> run evs p')"

definition active :: "process \<Rightarrow> nat" where
  "active p = length (filter (\<lambda>t. t = Awaiting) (tasks p))"

section \<open>Properties of the indexing state\<close>

lemma filter_update_awaiting:
  assumes "i < length ts" "ts ! i = Awaiting"
  shows "Suc (length (filter (\<lambda>t. t = Awaiting) (ts[i := Finished r])))
         = length (filter (\<lambda>t. t = Awaiting) ts)"
  using assms
proof (induction ts arbitrary: i)
  case Nil
  then show ?case by simp
next
  case (Cons t ts)
  then show ?case by (cases i) auto
qed

definition guard_inv :: "process \<Rightarrow> bool" where
  "guard_inv p \<longleftrightarrow> active p = (if indexingInProgress (service p) then 1 else 0)"

lemma guard_inv_initial: "guard_inv initial"
  by (simp add: guard_inv_def initial_def active_def)

lemma guard_inv_step:
  assumes "guard_inv p" "step ev p = Some p'"
  shows "guard_inv p'"
proof (cases ev)
  case Trigger
  with assms show ?thesis
    by (auto simp: guard_inv_def step_def active_def indexAllDocuments_enter_def
             split: if_splits)
next
  case (Perform i opn)
  with assms show ?thesis
    by (auto simp: guard_inv_def step_def active_def split: if_splits)
next
  case (Settle i outcome now)
  with assms have i: "i < length (tasks p)" "tasks p ! i = Awaiting"
    by (auto simp: step_def split: if_splits)
  then have pos: "active p \<noteq> 0"
    by (auto simp: active_def filter_empty_conv in_set_conv_nth)
  with assms(1) have flag: "indexingInProgress (service p)" "active p = 1"
    by (auto simp: guard_inv_def split: if_splits)
  obtain r this1 where res: "indexAllDocuments_resume outcome now (service p) = (r, this1)"
    by (cases "indexAllDocuments_resume outcome now (service p)")
  then have cleared: "\<not> indexingInProgress this1"
    by (auto simp: indexAllDocuments_resume_def split: sum.splits)
  from Settle assms(2) i res
  have p': "p' = p\<lparr>service := this1, tasks := (tasks p)[i := Finished r]\<rparr>"
    by (simp add: step_def)
  from filter_update_awaiting [OF i, of r] flag(2)
  have "length (filter (\<lambda>t. t = Awaiting) ((tasks p)[i := Finished r])) = 0"
    by (simp add: active_def)
  with p' cleared show ?thesis
    by (simp add: guard_inv_def active_def)
qed

lemma guard_inv_run:
  assumes "guard_inv p" "run evs p = Some p'"
  shows "guard_inv p'"
  using assms
proof (induction evs arbitrary: p)
  case Nil
  then show ?case by simp
next
  case (Cons ev evs)
  then show ?case
    by (auto split: option.splits dest: guard_inv_step)
qed


text \<open>
  C10: for every state of the service, whatever its vector store holds and whatever runs
  have completed, the status returned by \<open>getIndexingStatus\<close> has \<open>vectorCount\<close>
  equal to 0.
\<close>

theorem getIndexingStatus_vectorCount:
  "vectorCount (getIndexingStatus this) = 0"
  by (simp add: getIndexingStatus_def)

text \<open>
  C6, as the spec states it, asks that a run that fails also sets \<open>lastIndexTime\<close> to
  the completion time. A run that started with \<open>lastIndexTime = null\<close> and whose
  strategy rejects at time 1000 ends with \<open>lastIndexTime\<close> still \<open>null\<close>.
\<close>

theorem indexAllDocuments_failure_counterexample:
  "lastIndexTime (snd (indexAllDocuments_resume (Inl (Error ''Catalog fetch failed: timeout'')) 1000
      \<lparr>vectorStore = (), indexingInProgress = True, lastIndexTime = None\<rparr>)) \<noteq> Some 1000"
  by (simp add: indexAllDocuments_resume_def)

text \<open>
  C6, amended: a call that passes the guard sets \<open>indexingInProgress\<close> to true before
  the strategy runs; when the strategy settles, the flag is set back to false whether the
  run succeeded or failed, the call returns the strategy's outcome, and
  \<open>lastIndexTime\<close> is set to the completion time when the run succeeded and is left as
  it was when the run failed.
\<close>

theorem indexAllDocuments_lifecycle:
  assumes "\<not> indexingInProgress this"
  shows "indexAllDocuments_enter this = (this\<lparr>indexingInProgress := True\<rparr>, True)
       \<and> \<not> indexingInProgress (snd (indexAllDocuments_resume outcome now this'))
       \<and> fst (indexAllDocuments_resume outcome now this') = outcome
       \<and> lastIndexTime (snd (indexAllDocuments_resume outcome now this'))
           = (case outcome of Inr _ \<Rightarrow> Some now | Inl _ \<Rightarrow> lastIndexTime this')
       \<and> indexAllDocuments indexAll now this
           = indexAllDocuments_resume (fst (indexAll (vectorStore this))) now
               (this\<lparr>indexingInProgress := True, vectorStore := snd (indexAll (vectorStore this))\<rparr>)"
  using assms
  by (auto simp: indexAllDocuments_enter_def indexAllDocuments_resume_def indexAllDocuments_def
           split: sum.splits prod.splits)

theorem indexAllDocuments_lifecycle_witness:
  "\<not> indexingInProgress \<lparr>vectorStore = (), indexingInProgress = False, lastIndexTime = Some 7\<rparr>
   \<and> indexAllDocuments_enter \<lparr>vectorStore = (), indexingInProgress = False, lastIndexTime = Some 7\<rparr>
       = (\<lparr>vectorStore = (), indexingInProgress = True, lastIndexTime = Some 7\<rparr>, True)
   \<and> indexAllDocuments_resume (Inl (Error ''Catalog fetch failed: timeout'')) 1000
         \<lparr>vectorStore = (), indexingInProgress = True, lastIndexTime = Some 7\<rparr>
       = (Inl (Error ''Catalog fetch failed: timeout''),
          \<lparr>vectorStore = (), indexingInProgress = False, lastIndexTime = Some 7\<rparr>)
   \<and> indexAllDocuments (Pair (Inr ())) 1000
         \<lparr>vectorStore = (), indexingInProgress = False, lastIndexTime = Some 7\<rparr>
       = (Inr (), \<lparr>vectorStore = (), indexingInProgress = False, lastIndexTime = Some 1000\<rparr>)"
proof -
  have h: "\<not> indexingInProgress \<lparr>vectorStore = (), indexingInProgress = False, lastIndexTime = Some 7\<rparr>"
    by simp
  show ?thesis
    using indexAllDocuments_lifecycle [OF h, of "Inl (Error ''Catalog fetch failed: timeout'')" 1000
        "\<lparr>vectorStore = (), indexingInProgress = True, lastIndexTime = Some 7\<rparr>" "Pair (Inr ())"]
    by (simp add: indexAllDocuments_resume_def)
qed

text \<open>
  C5: in every state the process reaches from its start, by any interleaving of triggers,
  strategy operations and settlements, at most one call of \<open>indexAllDocuments\<close> has its
  strategy run in flight, and exactly one has while the flag is set; a trigger that
  arrives while the flag is set returns at once without error, changes neither the
  service nor the log of strategy operations (no clear, no fetch, no store), and leaves
  the number of runs in flight as it was.
\<close>

theorem indexAllDocuments_single_flight:
  assumes "run evs initial = Some p"
  shows "active p \<le> 1
       \<and> (indexingInProgress (service p) \<longleftrightarrow> active p = 1)
       \<and> (indexingInProgress (service p) \<longrightarrow>
            step Trigger p = Some (p\<lparr>tasks := tasks p @ [Finished (Inr ())]\<rparr>)
            \<and> active (p\<lparr>tasks := tasks p @ [Finished (Inr ())]\<rparr>) = active p)"
proof -
  from guard_inv_run [OF guard_inv_initial assms]
  have inv: "active p = (if indexingInProgress (service p) then 1 else 0)"
    by (simp add: guard_inv_def)
  have skip: "step Trigger p = Some (p\<lparr>tasks := tasks p @ [Finished (Inr ())]\<rparr>)"
    if "indexingInProgress (service p)"
    using that by (simp add: step_def indexAllDocuments_enter_def)
  have same: "active (p\<lparr>tasks := tasks p @ [Finished (Inr ())]\<rparr>) = active p"
    by (simp add: active_def)
  from inv skip same show ?thesis by simp
qed

theorem indexAllDocuments_single_flight_witness:
  "run [Trigger, Perform 0 Clear, Trigger] initial
     = Some \<lparr>service = \<lparr>vectorStore = (), indexingInProgress = True, lastIndexTime = None\<rparr>,
             tasks = [Awaiting, Finished (Inr ())], performed = [(0, Clear)]\<rparr>
   \<and> active \<lparr>service = \<lparr>vectorStore = (), indexingInProgress = True, lastIndexTime = None\<rparr>,
             tasks = [Awaiting, Finished (Inr ())], performed = [(0, Clear)]\<rparr> = 1
   \<and> step Trigger \<lparr>service = \<lparr>vectorStore = (), indexingInProgress = True, lastIndexTime = None\<rparr>,
             tasks = [Awaiting, Finished (Inr ())], performed = [(0, Clear)]\<rparr>
     = Some \<lparr>service = \<lparr>vectorStore = (), indexingInProgress = True, lastIndexTime = None\<rparr>,
             tasks = [Awaiting, Finished (Inr ()), Finished (Inr ())], performed = [(0, Clear)]\<rparr>"
proof -
  have r: "run [Trigger, Perform 0 Clear, Trigger] initial
     = Some \<lparr>service = \<lparr>vectorStore = (), indexingInProgress = True, lastIndexTime = None\<rparr>,
             tasks = [Awaiting, Finished (Inr ())], performed = [(0, Clear)]\<rparr>"
    by (simp add: step_def initial_def indexAllDocuments_enter_def)
  show ?thesis
    using indexAllDocuments_single_flight [OF r] r by simp
qed


section \<open>OllamaLLMService: embeddings\<close>

text \<open>Decimal digits of a number, as a template literal prints it.\<close>

fun show_nat :: "nat \<Rightarrow> string" where
  "show_nat n =
     (if n < 10 then [char_of (48 + n)]
      else show_nat (n div 10) @ [char_of (48 + n mod 10)])"

declare show_nat.simps [simp del]

text \<open>
  What the POST to \<open>/api/embed\<close> comes back with. \<open>fetch\<close> rejects (no connection) or
  resolves with a response: its \<open>ok\<close> flag, its status, its body as text, and its body
  as \<open>response.json()\<close> reads it. Of the parsed body only the \<open>embeddings\<close>
  property is read: it is falsy (absent, \<open>null\<close>, \<open>0\<close>, the empty string), or a
  truthy value that is not an array, or an array.
\<close>

datatype embeddings_property = Falsy | NotArray | Array "real list list"

datatype json_body =
    Unparsable string
  | JsonNull
  | JsonValue embeddings_property

record response =
  response_ok :: bool
  response_status :: nat
  response_text :: string
  response_json :: json_body

datatype fetch_outcome = Rejected string | Resolved response

text \<open>The \<open>try\<close> block of \<open>generateEmbeddings\<close>, then the \<open>catch\<close> that wraps the message.\<close>

definition generateEmbeddings_try :: "fetch_outcome \<Rightarrow> real list list result" where
  "generateEmbeddings_try reply =
     (case reply of
        Rejected msg \<Rightarrow> Inl (Error msg)
      | Resolved response \<Rightarrow>
          if \<not> response_ok response
          then Inl (Error (''Ollama API error ('' @ show_nat (response_status response) @ ''): ''
                           @ response_text response))
          else (case response_json response of
                  Unparsable msg \<Rightarrow> Inl (Error msg)
                | JsonNull \<Rightarrow> Inl (Error ''Cannot read properties of null (reading 'embeddings')'')
                | JsonValue Falsy \<Rightarrow> Inl (Error ''Invalid embeddings response format from Ollama'')
                | JsonValue NotArray \<Rightarrow> Inl (Error ''Invalid embeddings response format from Ollama'')
                | JsonValue (Array embeddings) \<Rightarrow> Inr embeddings))"

text \<open>
  \<open>inputs\<close> are the texts sent in the request; \<open>reply\<close> is what the request comes back
  with. The function body reads \<open>inputs\<close> for the request and a log line only.
\<close>

definition generateEmbeddings :: "fetch_outcome \<Rightarrow> string list \<Rightarrow> real list list result" where
  "generateEmbeddings reply inputs =
     (case generateEmbeddings_try reply of
        Inl (Error msg) \<Rightarrow> Inl (Error (''Embedding generation failed: '' @ msg))
      | Inr embeddings \<Rightarrow> Inr embeddings)"

text \<open>
  C4, as the spec states it, asks for a failure when the returned array is empty or its
  length differs from the number of inputs. For one input text and a 200 response whose
  \<open>embeddings\<close> is the empty array, the call returns the empty array.
\<close>

theorem generateEmbeddings_empty_counterexample:
  "generateEmbeddings
     (Resolved \<lparr>response_ok = True, response_status = 200, response_text = ''{\"embeddings\":[]}'',
                response_json = JsonValue (Array [])\<rparr>)
     [''Service X handles payments.'']
   = Inr []"
  by (simp add: generateEmbeddings_def generateEmbeddings_try_def)

text \<open>
  C4, amended: \<open>generateEmbeddings\<close> fails, with a message that starts
  \<open>Embedding generation failed:\<close>, whenever the request is rejected, the response is
  not ok, the body does not parse, or the \<open>embeddings\<close> property is missing or is not an
  array. Whenever the response is ok and \<open>embeddings\<close> is an array, the array is
  returned as it is: neither its being empty nor its length against the number of inputs
  is checked.
\<close>

theorem generateEmbeddings_failures:
  "(\<forall>msg. reply = Rejected msg \<longrightarrow>
       generateEmbeddings reply inputs = Inl (Error (''Embedding generation failed: '' @ msg)))
   \<and> (\<forall>r. reply = Resolved r \<and> \<not> response_ok r \<longrightarrow>
       (\<exists>msg. generateEmbeddings reply inputs = Inl (Error (''Embedding generation failed: '' @ msg))))
   \<and> (\<forall>r. reply = Resolved r \<and> response_ok r \<and> (\<forall>vs. response_json r \<noteq> JsonValue (Array vs)) \<longrightarrow>
       (\<exists>msg. generateEmbeddings reply inputs = Inl (Error (''Embedding generation failed: '' @ msg))))
   \<and> (\<forall>r vs. reply = Resolved r \<and> response_ok r \<and> response_json r = JsonValue (Array vs) \<longrightarrow>
       generateEmbeddings reply inputs = Inr vs)"
proof -
  have bad_json: "\<exists>msg. generateEmbeddings (Resolved r) inputs
                         = Inl (Error (''Embedding generation failed: '' @ msg))"
    if "response_ok r" "\<forall>vs. response_json r \<noteq> JsonValue (Array vs)" for r
  proof (cases "response_json r")
    case (Unparsable m)
    with that show ?thesis
      by (simp add: generateEmbeddings_def generateEmbeddings_try_def)
  next
    case JsonNull
    with that show ?thesis
      by (simp add: generateEmbeddings_def generateEmbeddings_try_def)
  next
    case (JsonValue v)
    with that show ?thesis
      by (cases v) (simp_all add: generateEmbeddings_def generateEmbeddings_try_def)
  qed
  show ?thesis
    using bad_json
    by (auto simp: generateEmbeddings_def generateEmbeddings_try_def)
qed

theorem generateEmbeddings_failures_witness:
  "generateEmbeddings (Rejected ''connect ECONNREFUSED'') [''a'', ''b'']
     = Inl (Error ''Embedding generation failed: connect ECONNREFUSED'')
   \<and> generateEmbeddings
       (Resolved \<lparr>response_ok = False, response_status = 404, response_text = ''model not found'',
                  response_json = JsonNull\<rparr>) [''a'', ''b'']
     = Inl (Error ''Embedding generation failed: Ollama API error (404): model not found'')
   \<and> generateEmbeddings
       (Resolved \<lparr>response_ok = True, response_status = 200, response_text = ''{}'',
                  response_json = JsonValue Falsy\<rparr>) [''a'', ''b'']
     = Inl (Error ''Embedding generation failed: Invalid embeddings response format from Ollama'')
   \<and> generateEmbeddings
       (Resolved \<lparr>response_ok = True, response_status = 200, response_text = ''{\"embeddings\":[[1]]}'',
                  response_json = JsonValue (Array [[1]])\<rparr>) [''a'', ''b'']
     = Inr [[1]]"
proof -
  have n: "show_nat 404 = ''404''"
    by code_simp
  have a: "generateEmbeddings (Rejected ''connect ECONNREFUSED'') [''a'', ''b'']
     = Inl (Error ''Embedding generation failed: connect ECONNREFUSED'')"
    using generateEmbeddings_failures [of "Rejected ''connect ECONNREFUSED''" "[''a'', ''b'']"]
    by simp
  have d: "generateEmbeddings
       (Resolved \<lparr>response_ok = True, response_status = 200, response_text = ''{\"embeddings\":[[1]]}'',
                  response_json = JsonValue (Array [[1]])\<rparr>) [''a'', ''b'']
     = Inr [[1]]"
    using generateEmbeddings_failures
      [of "Resolved \<lparr>response_ok = True, response_status = 200,
             response_text = ''{\"embeddings\":[[1]]}'', response_json = JsonValue (Array [[1]])\<rparr>"
          "[''a'', ''b'']"]
    by simp
  from a d n show ?thesis
    by (simp add: generateEmbeddings_def generateEmbeddings_try_def)
qed


section \<open>Numbers\<close>

text \<open>
  A JavaScript number is an IEEE 754 double: NaN, one of the two infinities, or a
  finite value, which is kept as the real number it stands for. Zero carries no sign:
  the one division of the code is guarded by a test against zero, and no comparison
  tells the two zeros apart. PostgreSQL's \<open>float8\<close> is the same format.
\<close>

datatype number = NaN | NegInf | Fin real | PosInf

text \<open>The power of two with an integer exponent.\<close>

definition pow2 :: "int \<Rightarrow> real" where
  "pow2 k = (if 0 \<le> k then 2 ^ nat k else 1 / 2 ^ nat (- k))"

text \<open>
  The binary exponent of a positive number \<open>x\<close>, which is the \<open>e\<close> with
  \<open>pow2 e \<le> x < pow2 (e + 1)\<close>, from the number of bits of the integer part of
  \<open>x\<close> or of \<open>1 / x\<close>.
\<close>

definition exponent :: "real \<Rightarrow> int" where
  "exponent x = (if 1 \<le> x then bitlen \<lfloor>x\<rfloor> - 1 else - bitlen (\<lceil>1 / x\<rceil> - 1))"

text \<open>Rounding to the nearest integer, a tie to the even one.\<close>

definition round_half_even :: "real \<Rightarrow> int" where
  "round_half_even t =
     (let n = \<lfloor>t\<rfloor>; f = t - of_int n
      in if f < 1 / 2 then n else if 1 / 2 < f then n + 1 else if even n then n else n + 1)"

text \<open>
  The double nearest to a positive number, before the check for overflow. A double of
  exponent \<open>e\<close> has 52 bits after the leading one, so the number is rounded to a
  multiple of \<open>pow2 (e - 52)\<close>; below the exponent \<open>-1022\<close>, in the subnormal range,
  to a multiple of \<open>pow2 (- 1074)\<close>.
\<close>

definition nearest :: "real \<Rightarrow> real" where
  "nearest m =
     (let ulp = pow2 (max (exponent m) (- 1022) - 52)
      in of_int (round_half_even (m / ulp)) * ulp)"

text \<open>
  The double that an operation returns when its exact result is \<open>x\<close>: round to
  nearest, ties to even, on the magnitude; a rounded magnitude of \<open>pow2 1024\<close> or
  more overflows to an infinity.
\<close>

definition round_double :: "real \<Rightarrow> number" where
  "round_double x =
     (if x = 0 then Fin 0
      else if pow2 1024 \<le> nearest \<bar>x\<bar> then (if 0 < x then PosInf else NegInf)
      else Fin (if 0 < x then nearest \<bar>x\<bar> else - nearest \<bar>x\<bar>))"

text \<open>The comparisons \<open><\<close> and \<open>\<le>\<close> of two numbers: false when one of them is NaN.\<close>

fun number_less :: "number \<Rightarrow> number \<Rightarrow> bool" where
  "number_less (Fin a) (Fin b) = (a < b)"
| "number_less NaN y = False"
| "number_less x NaN = False"
| "number_less x NegInf = False"
| "number_less NegInf y = True"
| "number_less PosInf y = False"
| "number_less (Fin a) PosInf = True"

definition number_le :: "number \<Rightarrow> number \<Rightarrow> bool" where
  "number_le x y = (x \<noteq> NaN \<and> y \<noteq> NaN \<and> \<not> number_less y x)"

text \<open>
  The operations \<open>+\<close>, \<open>-\<close>, \<open>*\<close> and \<open>/\<close>, and \<open>Math.sqrt\<close> as the correctly
  rounded square root of IEEE 754. An operation on NaN gives NaN, and so do
  \<open>Infinity - Infinity\<close>, \<open>0 * Infinity\<close>, \<open>Infinity / Infinity\<close>, \<open>0 / 0\<close> and the square root of a negative
  number. A division of a finite number other than zero by zero, which the code never
  does, gives an infinity of the dividend's sign.
\<close>

fun fl_add :: "number \<Rightarrow> number \<Rightarrow> number" where
  "fl_add (Fin a) (Fin b) = round_double (a + b)"
| "fl_add NaN y = NaN"
| "fl_add x NaN = NaN"
| "fl_add PosInf NegInf = NaN"
| "fl_add NegInf PosInf = NaN"
| "fl_add PosInf y = PosInf"
| "fl_add NegInf y = NegInf"
| "fl_add (Fin a) y = y"

fun fl_sub :: "number \<Rightarrow> number \<Rightarrow> number" where
  "fl_sub (Fin a) (Fin b) = round_double (a - b)"
| "fl_sub NaN y = NaN"
| "fl_sub x NaN = NaN"
| "fl_sub PosInf PosInf = NaN"
| "fl_sub NegInf NegInf = NaN"
| "fl_sub PosInf y = PosInf"
| "fl_sub NegInf y = NegInf"
| "fl_sub (Fin a) PosInf = NegInf"
| "fl_sub (Fin a) NegInf = PosInf"

fun fl_mul :: "number \<Rightarrow> number \<Rightarrow> number" where
  "fl_mul (Fin a) (Fin b) = round_double (a * b)"
| "fl_mul NaN y = NaN"
| "fl_mul x NaN = NaN"
| "fl_mul PosInf (Fin b) = (if b = 0 then NaN else if 0 < b then PosInf else NegInf)"
| "fl_mul NegInf (Fin b) = (if b = 0 then NaN else if 0 < b then NegInf else PosInf)"
| "fl_mul (Fin a) PosInf = (if a = 0 then NaN else if 0 < a then PosInf else NegInf)"
| "fl_mul (Fin a) NegInf = (if a = 0 then NaN else if 0 < a then NegInf else PosInf)"
| "fl_mul PosInf PosInf = PosInf"
| "fl_mul PosInf NegInf = NegInf"
| "fl_mul NegInf PosInf = NegInf"
| "fl_mul NegInf NegInf = PosInf"

fun fl_div :: "number \<Rightarrow> number \<Rightarrow> number" where
  "fl_div (Fin a) (Fin b) =
     (if b = 0 then (if a = 0 then NaN else if 0 < a then PosInf else NegInf)
      else round_double (a / b))"
| "fl_div NaN y = NaN"
| "fl_div x NaN = NaN"
| "fl_div (Fin a) y = Fin 0"
| "fl_div PosInf (Fin b) = (if 0 \<le> b then PosInf else NegInf)"
| "fl_div NegInf (Fin b) = (if 0 \<le> b then NegInf else PosInf)"
| "fl_div x y = NaN"

fun fl_sqrt :: "number \<Rightarrow> number" where
  "fl_sqrt (Fin a) = (if a < 0 then NaN else round_double (sqrt a))"
| "fl_sqrt PosInf = PosInf"
| "fl_sqrt x = NaN"

section \<open>Sorting\<close>

text \<open>
  A stable sort by insertion; \<open>later x y\<close> says that \<open>x\<close> has to come after \<open>y\<close>.
\<close>

fun insert_before :: "('a \<Rightarrow> 'a \<Rightarrow> bool) \<Rightarrow> 'a \<Rightarrow> 'a list \<Rightarrow> 'a list" where
  "insert_before later x [] = [x]"
| "insert_before later x (y # ys) =
     (if later x y then y # insert_before later x ys else x # y # ys)"

definition insertion_sort :: "('a \<Rightarrow> 'a \<Rightarrow> bool) \<Rightarrow> 'a list \<Rightarrow> 'a list" where
  "insertion_sort later xs = foldr (insert_before later) xs []"


section \<open>Chunks, embedding vectors and search results\<close>

text \<open>
  The models of \<open>models/index.ts\<close>. The components of a vector are finite doubles,
  kept as real numbers; a similarity is a \<open>number\<close>. The \<open>id\<close> fields are
  \<open>dc_id\<close> and \<open>ev_id\<close>. The \<open>vector\<close> of an embedding vector is \<open>None\<close> when
  it is \<open>undefined\<close>, which is what \<open>embeddings[index]\<close> gives beyond the end of the
  array.
\<close>

record ChunkMetadata =
  source :: string
  chunkIndex :: nat
  totalChunks :: nat

record DocumentChunk =
  dc_id :: string
  entityId :: string
  entityName :: string
  content :: string
  metadata :: ChunkMetadata

record EmbeddingVector =
  ev_id :: string
  chunkId :: string
  vector :: "real list option"
  documentChunk :: DocumentChunk

record SearchResult =
  sr_documentChunk :: DocumentChunk
  similarity :: number

section \<open>SimpleRAGStrategy: indexing one entity\<close>

text \<open>
  The strategy's collaborators, as it receives them in \<open>RAGServiceDependencies\<close>: the
  catalog collector (\<open>cc_\<close>), the document processor (\<open>dp_\<close>), the TechDocs collector
  (\<open>td_\<close>), the LLM service (\<open>llm_\<close>) and the vector store (\<open>vs_\<close>), whose state is
  of type \<open>'vs\<close>. Each method returns its value or the error it throws or rejects with.
  \<open>entity_name\<close> reads \<open>entity.metadata.name\<close>.
\<close>

record ('e, 'vs) RAGServiceDependencies =
  cc_fetchAllEntities :: "'e list result"
  cc_fetchEntity :: "string \<Rightarrow> 'e result"
  cc_extractEntityContent :: "'e \<Rightarrow> string result"
  cc_getEntityRef :: "'e \<Rightarrow> string"
  entity_name :: "'e \<Rightarrow> string"
  dp_chunkDocument :: "string \<Rightarrow> string \<Rightarrow> string \<Rightarrow> string \<Rightarrow> DocumentChunk list result"
  td_hasDocumentation :: "string \<Rightarrow> bool result"
  td_fetchDocumentation :: "string \<Rightarrow> string option result"
  llm_generateEmbeddings :: "string list \<Rightarrow> real list list result"
  vs_storeBatch :: "EmbeddingVector list \<Rightarrow> 'vs \<Rightarrow> unit result \<times> 'vs"
  vs_clear :: "'vs \<Rightarrow> unit result \<times> 'vs"
  vs_count :: "'vs \<Rightarrow> nat result"

text \<open>\<open>xs[i]\<close> in JavaScript: \<open>undefined\<close> beyond the end.\<close>

definition at_index :: "'a list \<Rightarrow> nat \<Rightarrow> 'a option" where
  "at_index xs i = (if i < length xs then Some (xs ! i) else None)"

text \<open>
  The chunks of the TechDocs of an entity: none when it has no documentation or the
  documentation fetched is \<open>null\<close> or empty.
\<close>

definition techDocsChunks ::
    "('e, 'vs) RAGServiceDependencies \<Rightarrow> string \<Rightarrow> string \<Rightarrow> DocumentChunk list result" where
  "techDocsChunks deps entityRef entName =
     (case td_hasDocumentation deps entityRef of
        Inl e \<Rightarrow> Inl e
      | Inr False \<Rightarrow> Inr []
      | Inr True \<Rightarrow>
          (case td_fetchDocumentation deps entityRef of
             Inl e \<Rightarrow> Inl e
           | Inr None \<Rightarrow> Inr []
           | Inr (Some documentation) \<Rightarrow>
               if documentation = [] then Inr []
               else dp_chunkDocument deps documentation entityRef entName ''techdocs''))"

definition embeddingVectors :: "DocumentChunk list \<Rightarrow> real list list \<Rightarrow> EmbeddingVector list" where
  "embeddingVectors allChunks embeddings =
     map (\<lambda>(chunk, index).
            \<lparr>ev_id = dc_id chunk, chunkId = dc_id chunk,
             vector = at_index embeddings index, documentChunk = chunk\<rparr>)
         (zip allChunks [0 ..< length allChunks])"

text \<open>The \<open>try\<close> block of \<open>indexEntityInternal\<close>.\<close>

definition indexEntityInternal_try ::
    "('e, 'vs) RAGServiceDependencies \<Rightarrow> 'e \<Rightarrow> 'vs \<Rightarrow> unit result \<times> 'vs" where
  "indexEntityInternal_try deps entity vs =
     (let entityRef = cc_getEntityRef deps entity;
          entName = entity_name deps entity
      in case cc_extractEntityContent deps entity of
           Inl e \<Rightarrow> (Inl e, vs)
         | Inr catalogContent \<Rightarrow>
             (case dp_chunkDocument deps catalogContent entityRef entName ''catalog'' of
                Inl e \<Rightarrow> (Inl e, vs)
              | Inr catalogChunks \<Rightarrow>
                  (case techDocsChunks deps entityRef entName of
                     Inl e \<Rightarrow> (Inl e, vs)
                   | Inr docChunks \<Rightarrow>
                       (let allChunks = catalogChunks @ docChunks
                        in if allChunks = [] then (Inr (), vs)
                           else (case llm_generateEmbeddings deps (map content allChunks) of
                                   Inl e \<Rightarrow> (Inl e, vs)
                                 | Inr embeddings \<Rightarrow>
                                     vs_storeBatch deps (embeddingVectors allChunks embeddings) vs)))))"

text \<open>
  \<open>indexEntityInternal\<close>: the \<open>catch\<close> logs the error and ends the function
  normally.
\<close>

definition indexEntityInternal ::
    "('e, 'vs) RAGServiceDependencies \<Rightarrow> 'e \<Rightarrow> 'vs \<Rightarrow> unit result \<times> 'vs" where
  "indexEntityInternal deps entity vs =
     (case indexEntityInternal_try deps entity vs of
        (Inl e, vs') \<Rightarrow> (Inr (), vs')
      | (Inr u, vs') \<Rightarrow> (Inr (), vs'))"

definition indexEntity ::
    "('e, 'vs) RAGServiceDependencies \<Rightarrow> string \<Rightarrow> 'vs \<Rightarrow> unit result \<times> 'vs" where
  "indexEntity deps entityRef vs =
     (case cc_fetchEntity deps entityRef of
        Inl e \<Rightarrow> (Inl e, vs)
      | Inr entity \<Rightarrow> indexEntityInternal deps entity vs)"

text \<open>\<open>RAGService.indexEntity\<close>: logs and rethrows what the strategy rejects with.\<close>

definition RAGService_indexEntity ::
    "('e, 'vs) RAGServiceDependencies \<Rightarrow> string \<Rightarrow> 'vs \<Rightarrow> unit result \<times> 'vs" where
  "RAGService_indexEntity deps entityRef vs =
     (case indexEntity deps entityRef vs of
        (Inl e, vs') \<Rightarrow> (Inl e, vs')
      | (Inr u, vs') \<Rightarrow> (Inr u, vs'))"

text \<open>
  The catalog collector's \<open>getEntityRef\<close>, on the fields of an entity that it reads.
\<close>

record Entity =
  kind :: string
  namespace :: "string option"
  name :: string

definition getEntityRef :: "Entity \<Rightarrow> string" where
  "getEntityRef entity =
     kind entity @ '':''
       @ (case namespace entity of None \<Rightarrow> ''default'' | Some ns \<Rightarrow> if ns = [] then ''default'' else ns)
       @ ''/'' @ name entity"

text \<open>
  A setting in which the embedding provider is down: one entity in the catalog, one
  chunk for it, and an LLM service whose \<open>generateEmbeddings\<close> rejects. The vector
  store is the list of the embedding vectors stored.
\<close>

definition payments :: Entity where
  "payments = \<lparr>kind = ''component'', namespace = None, name = ''payments''\<rparr>"

definition provider_down :: "(Entity, EmbeddingVector list) RAGServiceDependencies" where
  "provider_down =
     \<lparr>cc_fetchAllEntities = Inr [payments],
      cc_fetchEntity = (\<lambda>entityRef. if entityRef = ''component:default/payments'' then Inr payments
                         else Inl (Error (''Entity fetch failed: Entity not found: '' @ entityRef))),
      cc_extractEntityContent = (\<lambda>entity. Inr (''Entity: '' @ name entity)),
      cc_getEntityRef = getEntityRef,
      entity_name = name,
      dp_chunkDocument = (\<lambda>text eid ename src.
         Inr [\<lparr>dc_id = eid @ ''-'' @ src @ ''-0'', entityId = eid, entityName = ename,
               content = text, metadata = \<lparr>source = src, chunkIndex = 0, totalChunks = 1\<rparr>\<rparr>]),
      td_hasDocumentation = (\<lambda>entityRef. Inr False),
      td_fetchDocumentation = (\<lambda>entityRef. Inr None),
      llm_generateEmbeddings = (\<lambda>inputs. generateEmbeddings (Rejected ''connect ECONNREFUSED'') inputs),
      vs_storeBatch = (\<lambda>embeddings vs. (Inr (), vs @ embeddings)),
      vs_clear = (\<lambda>vs. (Inr (), [])),
      vs_count = (\<lambda>vs. Inr (length vs))\<rparr>"

text \<open>
  C3 fails on the code. Once \<open>fetchEntity\<close> has returned the entity, \<open>indexEntity\<close>
  resolves normally whatever happens in the per-item work: an error of content
  extraction, chunking, the TechDocs fetch, embedding generation or storage is caught in
  \<open>indexEntityInternal\<close> and not rethrown, so neither the strategy's \<open>indexEntity\<close> nor
  the service's reports it. Only an error of \<open>fetchEntity\<close> reaches the caller.
\<close>

theorem indexEntity_swallows_errors:
  "(\<forall>entity. cc_fetchEntity deps entityRef = Inr entity \<longrightarrow>
        fst (indexEntity deps entityRef vs) = Inr ()
      \<and> fst (RAGService_indexEntity deps entityRef vs) = Inr ())
   \<and> (\<forall>e. cc_fetchEntity deps entityRef = Inl e \<longrightarrow>
        indexEntity deps entityRef vs = (Inl e, vs))"
  by (auto simp: indexEntity_def RAGService_indexEntity_def indexEntityInternal_def
           split: prod.splits sum.splits)

text \<open>
  With the embedding provider down, indexing the entity \<open>component:default/payments\<close>
  resolves without error and stores nothing, although \<open>generateEmbeddings\<close> rejected.
\<close>

theorem indexEntity_swallows_errors_witness:
  "cc_fetchEntity provider_down ''component:default/payments'' = Inr payments
   \<and> llm_generateEmbeddings provider_down [''Entity: payments'']
       = Inl (Error ''Embedding generation failed: connect ECONNREFUSED'')
   \<and> indexEntityInternal_try provider_down payments []
       = (Inl (Error ''Embedding generation failed: connect ECONNREFUSED''), [])
   \<and> indexEntity provider_down ''component:default/payments'' [] = (Inr (), [])
   \<and> RAGService_indexEntity provider_down ''component:default/payments'' [] = (Inr (), [])"
proof -
  have f: "cc_fetchEntity provider_down ''component:default/payments'' = Inr payments"
    by (simp add: provider_down_def)
  have g: "llm_generateEmbeddings provider_down [''Entity: payments'']
       = Inl (Error ''Embedding generation failed: connect ECONNREFUSED'')"
    by (simp add: provider_down_def generateEmbeddings_def generateEmbeddings_try_def)
  have t: "indexEntityInternal_try provider_down payments []
       = (Inl (Error ''Embedding generation failed: connect ECONNREFUSED''), [])"
    by (simp add: provider_down_def indexEntityInternal_try_def techDocsChunks_def payments_def
          generateEmbeddings_def generateEmbeddings_try_def)
  have i: "indexEntity provider_down ''component:default/payments'' [] = (Inr (), [])"
    using indexEntity_swallows_errors [of provider_down "''component:default/payments''" "[]"] f t
    by (simp add: indexEntity_def indexEntityInternal_def)
  from f g t i show ?thesis
    by (simp add: RAGService_indexEntity_def)
qed


section \<open>PgVectorStore\<close>

subsection \<open>The database\<close>

text \<open>
  A row of the table \<open>embeddings\<close> of \<open>migrations/001_initial_schema.sql\<close>, without its
  two timestamps, which no statement of the store reads.
\<close>

record row =
  row_id :: string
  row_chunk_id :: string
  row_entity_id :: string
  row_entity_name :: string
  row_vector :: "real list"
  row_content :: string
  row_source :: string
  row_chunk_index :: nat
  row_total_chunks :: nat

text \<open>
  The server: whether it accepts connections, whether the extension \<open>vector\<close> is
  installed, whether the table exists, the committed rows of the table in the order of
  their insertion, the extension's cosine distance operator \<open><=>\<close>, whose result
  is a \<open>float8\<close> and can be NaN, and the rows that a scan for a query vector reaches:
  all of them when the scan is sequential, possibly fewer when it goes through the HNSW
  index.
\<close>

record database =
  accepting :: bool
  extension_installed :: bool
  table_exists :: bool
  embeddings_table :: "row list"
  cosine_distance :: "real list \<Rightarrow> real list \<Rightarrow> number"
  scan_reaches :: "real list \<Rightarrow> row \<Rightarrow> bool"

text \<open>
  The constraints of the schema on the values of one row: the column type
  \<open>vector(384)\<close> and the \<open>CHECK\<close> on \<open>source\<close>.
\<close>

definition satisfies_constraints :: "row \<Rightarrow> bool" where
  "satisfies_constraints r \<longleftrightarrow>
     length (row_vector r) = 384 \<and> (row_source r = ''catalog'' \<or> row_source r = ''techdocs'')"

definition same_key :: "row \<Rightarrow> row \<Rightarrow> bool" where
  "same_key r x \<longleftrightarrow> row_entity_id x = row_entity_id r \<and> row_chunk_id x = row_chunk_id r"

definition do_update :: "row \<Rightarrow> row \<Rightarrow> row" where
  "do_update excluded x =
     x\<lparr>row_vector := row_vector excluded, row_content := row_content excluded,
       row_entity_name := row_entity_name excluded, row_source := row_source excluded,
       row_chunk_index := row_chunk_index excluded,
       row_total_chunks := row_total_chunks excluded\<rparr>"

text \<open>
  \<open>INSERT INTO embeddings ... ON CONFLICT (entity_id, chunk_id) DO UPDATE SET ...\<close> on
  a table: a row that breaks a constraint is refused; a row whose
  \<open>(entity_id, chunk_id)\<close> is in the table updates the row that has it; any other row
  is inserted, unless its \<open>id\<close> is in the table already (the primary key).
\<close>

definition insert_on_conflict :: "row \<Rightarrow> row list \<Rightarrow> row list result" where
  "insert_on_conflict r tbl =
     (if \<not> satisfies_constraints r
      then Inl (Error ''new row for relation embeddings violates a constraint'')
      else if list_ex (same_key r) tbl
      then Inr (map (\<lambda>x. if same_key r x then do_update r x else x) tbl)
      else if list_ex (\<lambda>x. row_id x = row_id r) tbl
      then Inl (Error ''duplicate key value violates unique constraint embeddings_pkey'')
      else Inr (tbl @ [r]))"

text \<open>
  A client checked out of the pool is a session on the server: the committed table, the
  table as the open transaction sees it (\<open>None\<close> outside a transaction), and whether
  the open transaction has failed.
\<close>

record session =
  committed :: "row list"
  working :: "row list option"
  failed :: bool

datatype statement = BEGIN | COMMIT | ROLLBACK | INSERT row

definition query :: "statement \<Rightarrow> session \<Rightarrow> unit result \<times> session" where
  "query stmt s =
     (case stmt of
        BEGIN \<Rightarrow> (Inr (), s\<lparr>working := Some (committed s), failed := False\<rparr>)
      | INSERT r \<Rightarrow>
          (case working s of
             None \<Rightarrow>
               (case insert_on_conflict r (committed s) of
                  Inl e \<Rightarrow> (Inl e, s)
                | Inr tbl \<Rightarrow> (Inr (), s\<lparr>committed := tbl\<rparr>))
           | Some w \<Rightarrow>
               if failed s
               then (Inl (Error ''current transaction is aborted, commands ignored until end of transaction block''), s)
               else (case insert_on_conflict r w of
                       Inl e \<Rightarrow> (Inl e, s\<lparr>failed := True\<rparr>)
                     | Inr tbl \<Rightarrow> (Inr (), s\<lparr>working := Some tbl\<rparr>)))
      | COMMIT \<Rightarrow>
          (case working s of
             None \<Rightarrow> (Inr (), s)
           | Some w \<Rightarrow>
               if failed s then (Inr (), s\<lparr>working := None, failed := False\<rparr>)
               else (Inr (), s\<lparr>committed := w, working := None\<rparr>))
      | ROLLBACK \<Rightarrow> (Inr (), s\<lparr>working := None, failed := False\<rparr>))"

subsection \<open>The store\<close>

text \<open>
  The store's own flag \<open>initialized\<close>, its pool (of which only whether \<open>end()\<close> has
  been called matters here) and the database the pool connects to.
\<close>

record PgVectorStore =
  initialized :: bool
  pool_ended :: bool
  db :: database

definition NotInitializedError :: error where
  "NotInitializedError = Error ''PgVectorStore not initialized. Call initialize() first.''"

definition ensureInitialized :: "PgVectorStore \<Rightarrow> unit result" where
  "ensureInitialized this = (if \<not> initialized this then Inl NotInitializedError else Inr ())"

text \<open>
  \<open>pool.connect()\<close>: an ended pool rejects, and so does a server that accepts no
  connection; otherwise the client is a session outside any transaction.
\<close>

definition pool_connect :: "PgVectorStore \<Rightarrow> session result" where
  "pool_connect this =
     (if pool_ended this then Inl (Error ''Cannot use a pool after calling end on the pool'')
      else if \<not> accepting (db this) then Inl (Error ''connect ECONNREFUSED'')
      else Inr \<lparr>committed = embeddings_table (db this), working = None, failed = False\<rparr>)"

text \<open>\<open>client.release()\<close>: the session ends; what it committed stays.\<close>

definition release :: "session \<Rightarrow> PgVectorStore \<Rightarrow> PgVectorStore" where
  "release s this = this\<lparr>db := (db this)\<lparr>embeddings_table := committed s\<rparr>\<rparr>"

definition initialize_try :: "PgVectorStore \<Rightarrow> unit result" where
  "initialize_try this =
     (case pool_connect this of
        Inl e \<Rightarrow> Inl e
      | Inr client \<Rightarrow>
          if \<not> extension_installed (db this)
          then Inl (Error ''pgvector extension is not installed. Please run: CREATE EXTENSION vector;'')
          else if \<not> table_exists (db this)
          then Inl (Error ''Embeddings table not found. Run migrations first.'')
          else Inr ())"

definition initialize :: "PgVectorStore \<Rightarrow> unit result \<times> PgVectorStore" where
  "initialize this =
     (if initialized this then (Inr (), this)
      else (case initialize_try this of
              Inl (Error msg) \<Rightarrow>
                (Inl (Error (''PgVectorStore initialization failed: Error: '' @ msg)), this)
            | Inr _ \<Rightarrow> (Inr (), this\<lparr>initialized := True\<rparr>)))"

text \<open>\<open>close\<close> ends the pool; a pool ended before rejects a second \<open>end()\<close>.\<close>

definition close :: "PgVectorStore \<Rightarrow> unit result \<times> PgVectorStore" where
  "close this =
     (if pool_ended this then (Inl (Error ''Called end on pool more than once''), this)
      else (Inr (), this\<lparr>pool_ended := True\<rparr>))"

text \<open>
  The values of one \<open>INSERT\<close>. \<open>vectorToSql\<close> calls \<open>vector.join\<close>, which throws a
  \<open>TypeError\<close> on \<open>undefined\<close>.
\<close>

definition insert_values :: "EmbeddingVector \<Rightarrow> row result" where
  "insert_values embedding =
     (case vector embedding of
        None \<Rightarrow> Inl (Error ''Cannot read properties of undefined (reading 'join')'')
      | Some v \<Rightarrow>
          Inr \<lparr>row_id = ev_id embedding, row_chunk_id = chunkId embedding,
               row_entity_id = entityId (documentChunk embedding),
               row_entity_name = entityName (documentChunk embedding),
               row_vector = v,
               row_content = content (documentChunk embedding),
               row_source = source (metadata (documentChunk embedding)),
               row_chunk_index = chunkIndex (metadata (documentChunk embedding)),
               row_total_chunks = totalChunks (metadata (documentChunk embedding))\<rparr>)"

definition store :: "EmbeddingVector \<Rightarrow> PgVectorStore \<Rightarrow> unit result \<times> PgVectorStore" where
  "store embedding this =
     (case ensureInitialized this of
        Inl e \<Rightarrow> (Inl e, this)
      | Inr _ \<Rightarrow>
          (case pool_connect this of
             Inl e \<Rightarrow> (Inl e, this)
           | Inr client \<Rightarrow>
               (case insert_values embedding of
                  Inl e \<Rightarrow> (Inl e, release client this)
                | Inr r \<Rightarrow>
                    (case query (INSERT r) client of
                       (res, client') \<Rightarrow> (res, release client' this)))))"

text \<open>The \<open>for\<close> loop of \<open>storeBatch\<close>: it stops at the first statement that fails.\<close>

fun insert_each :: "EmbeddingVector list \<Rightarrow> session \<Rightarrow> unit result \<times> session" where
  "insert_each [] client = (Inr (), client)"
| "insert_each (embedding # rest) client =
     (case insert_values embedding of
        Inl e \<Rightarrow> (Inl e, client)
      | Inr r \<Rightarrow>
          (case query (INSERT r) client of
             (Inl e, client') \<Rightarrow> (Inl e, client')
           | (Inr _, client') \<Rightarrow> insert_each rest client'))"

text \<open>The \<open>try\<close> block of \<open>storeBatch\<close>: \<open>BEGIN\<close>, the loop, \<open>COMMIT\<close>.\<close>

definition storeBatch_try :: "EmbeddingVector list \<Rightarrow> session \<Rightarrow> unit result \<times> session" where
  "storeBatch_try batch client =
     (case query BEGIN client of
        (Inl e, c1) \<Rightarrow> (Inl e, c1)
      | (Inr _, c1) \<Rightarrow>
          (case insert_each batch c1 of
             (Inl e, c2) \<Rightarrow> (Inl e, c2)
           | (Inr _, c2) \<Rightarrow> query COMMIT c2))"

definition storeBatch :: "EmbeddingVector list \<Rightarrow> PgVectorStore \<Rightarrow> unit result \<times> PgVectorStore" where
  "storeBatch batch this =
     (case ensureInitialized this of
        Inl e \<Rightarrow> (Inl e, this)
      | Inr _ \<Rightarrow>
          if batch = [] then (Inr (), this)
          else (case pool_connect this of
                  Inl e \<Rightarrow> (Inl e, this)
                | Inr client \<Rightarrow>
                    (case storeBatch_try batch client of
                       (Inr _, c) \<Rightarrow> (Inr (), release c this)
                     | (Inl e, c) \<Rightarrow>
                         (case query ROLLBACK c of
                            (Inl e', c') \<Rightarrow> (Inl e', release c' this)
                          | (Inr _, c') \<Rightarrow> (Inl e, release c' this)))))"

text \<open>An optional argument that is \<open>undefined\<close> or the empty string is falsy.\<close>

definition truthy :: "string option \<Rightarrow> bool" where
  "truthy s \<longleftrightarrow> (case s of None \<Rightarrow> False | Some x \<Rightarrow> x \<noteq> [])"

definition clear :: "string option \<Rightarrow> PgVectorStore \<Rightarrow> unit result \<times> PgVectorStore" where
  "clear scope this =
     (case ensureInitialized this of
        Inl e \<Rightarrow> (Inl e, this)
      | Inr _ \<Rightarrow>
          (case pool_connect this of
             Inl e \<Rightarrow> (Inl e, this)
           | Inr client \<Rightarrow>
               (Inr (),
                release
                  (client\<lparr>committed :=
                     (if truthy scope
                      then filter (\<lambda>x. Some (row_entity_id x) \<noteq> scope) (committed client)
                      else [])\<rparr>)
                  this)))"

definition count :: "string option \<Rightarrow> PgVectorStore \<Rightarrow> nat result" where
  "count scope this =
     (case ensureInitialized this of
        Inl e \<Rightarrow> Inl e
      | Inr _ \<Rightarrow>
          (case pool_connect this of
             Inl e \<Rightarrow> Inl e
           | Inr client \<Rightarrow>
               Inr (length
                     (if truthy scope
                      then filter (\<lambda>x. Some (row_entity_id x) = scope) (committed client)
                      else committed client))))"


text \<open>
  \<open>Array.prototype.slice(start, end)\<close> on integers: a negative index counts from the
  end, and both indices are clamped to the array.
\<close>

definition relative_index :: "int \<Rightarrow> nat \<Rightarrow> nat" where
  "relative_index i len = (if i < 0 then nat (max (int len + i) 0) else min (nat i) len)"

definition slice :: "'a list \<Rightarrow> int \<Rightarrow> int \<Rightarrow> 'a list" where
  "slice xs start fin =
     take (relative_index fin (length xs) - relative_index start (length xs))
          (drop (relative_index start (length xs)) xs)"

text \<open>
  The order of \<open>float8\<close> in an \<open>ORDER BY\<close>: NaN sorts after every other value.
  Rows of equal key are taken in the order of the table.
\<close>

definition float8_less :: "number \<Rightarrow> number \<Rightarrow> bool" where
  "float8_less x y = (x \<noteq> NaN \<and> (y = NaN \<or> number_less x y))"

definition order_by :: "('a \<Rightarrow> number) \<Rightarrow> 'a list \<Rightarrow> 'a list" where
  "order_by key rows = insertion_sort (\<lambda>x y. float8_less (key y) (key x)) rows"

text \<open>
  The \<open>SELECT\<close> of \<open>search\<close> on the database. \<open>LIMIT\<close> refuses a negative
  number, and with \<open>LIMIT 0\<close> no row is read. Otherwise the rows that the scan reaches
  and that pass the \<open>WHERE\<close> are ordered by their distance to the query vector, and
  the first \<open>topK\<close> of them are returned, each with \<open>1 - distance\<close>, a subtraction
  of \<open>float8\<close>, as its similarity. The operator refuses two vectors of different
  dimensions.
\<close>

definition select_similar ::
    "database \<Rightarrow> real list \<Rightarrow> string option \<Rightarrow> int \<Rightarrow> (row \<times> number) list result" where
  "select_similar d q scope topK =
     (if topK < 0 then Inl (Error ''LIMIT must not be negative'')
      else if topK = 0 then Inr []
      else (let matching = filter (\<lambda>x. \<not> truthy scope \<or> Some (row_entity_id x) = scope)
                                  (filter (scan_reaches d q) (embeddings_table d))
            in if list_ex (\<lambda>x. length (row_vector x) \<noteq> length q) matching
               then Inl (Error ''different vector dimensions'')
               else Inr (map (\<lambda>x. (x, fl_sub (Fin 1) (cosine_distance d (row_vector x) q)))
                             (take (nat topK)
                                (order_by (\<lambda>x. cosine_distance d (row_vector x) q) matching)))))"

definition search_result :: "row \<times> number \<Rightarrow> SearchResult" where
  "search_result r =
     \<lparr>sr_documentChunk =
        \<lparr>dc_id = row_id (fst r), entityId = row_entity_id (fst r),
         entityName = row_entity_name (fst r), content = row_content (fst r),
         metadata = \<lparr>source = row_source (fst r), chunkIndex = row_chunk_index (fst r),
                     totalChunks = row_total_chunks (fst r)\<rparr>\<rparr>,
      similarity = snd r\<rparr>"

definition search ::
    "real list \<Rightarrow> int \<Rightarrow> string option \<Rightarrow> PgVectorStore \<Rightarrow> SearchResult list result" where
  "search queryVector topK scope this =
     (case ensureInitialized this of
        Inl e \<Rightarrow> Inl e
      | Inr _ \<Rightarrow>
          (case pool_connect this of
             Inl e \<Rightarrow> Inl e
           | Inr client \<Rightarrow>
               (case select_similar (db this) queryVector scope topK of
                  Inl e \<Rightarrow> Inl e
                | Inr rows \<Rightarrow> Inr (map search_result rows))))"

text \<open>A running database with the schema installed and no rows, and a new store on it.\<close>

definition empty_database :: database where
  "empty_database =
     \<lparr>accepting = True, extension_installed = True, table_exists = True,
      embeddings_table = [], cosine_distance = (\<lambda>a b. Fin 1), scan_reaches = (\<lambda>q x. True)\<rparr>"

definition new_store :: PgVectorStore where
  "new_store = \<lparr>initialized = False, pool_ended = False, db = empty_database\<rparr>"

subsection \<open>After close\<close>

text \<open>
  C9, as the spec states it, asks that every call after \<open>close()\<close> fails with the
  not-initialized error. On a store that was initialized and then closed,
  \<open>storeBatch\<close> of an empty batch returns normally, and \<open>count\<close> fails with the
  pool's error.
\<close>

theorem close_counterexample:
  "fst (storeBatch [] (snd (close (snd (initialize new_store))))) = Inr ()
   \<and> count None (snd (close (snd (initialize new_store))))
       = Inl (Error ''Cannot use a pool after calling end on the pool'')
   \<and> count None (snd (close (snd (initialize new_store)))) \<noteq> Inl NotInitializedError"
  by (simp add: new_store_def empty_database_def initialize_def initialize_try_def
        pool_connect_def close_def storeBatch_def count_def ensureInitialized_def
        NotInitializedError_def)

text \<open>
  C9, amended: \<open>close()\<close> ends the pool and leaves the flag \<open>initialized\<close> as it
  was. On a store never initialized, \<open>store\<close>, \<open>storeBatch\<close>, \<open>search\<close>,
  \<open>clear\<close> and \<open>count\<close> fail with the not-initialized error, before and after
  \<open>close()\<close>. On an initialized store, after a \<open>close()\<close> that succeeded, they pass
  the check of the flag: \<open>store\<close>, \<open>search\<close>, \<open>clear\<close>, \<open>count\<close> and
  \<open>storeBatch\<close> of a non-empty batch fail with the pool's error, which is not the
  not-initialized error, and leave the store as it is; \<open>storeBatch\<close> of an empty batch
  returns normally.
\<close>

theorem close_keeps_initialized:
  assumes "close this = (Inr (), this')"
  shows "initialized this' = initialized this \<and> pool_ended this' \<and> db this' = db this
       \<and> (\<not> initialized this \<longrightarrow>
             store embedding this' = (Inl NotInitializedError, this')
           \<and> storeBatch batch this' = (Inl NotInitializedError, this')
           \<and> search queryVector topK scope this' = Inl NotInitializedError
           \<and> clear scope this' = (Inl NotInitializedError, this')
           \<and> count scope this' = Inl NotInitializedError)
       \<and> (initialized this \<longrightarrow>
             store embedding this'
               = (Inl (Error ''Cannot use a pool after calling end on the pool''), this')
           \<and> storeBatch batch this'
               = (if batch = [] then (Inr (), this')
                  else (Inl (Error ''Cannot use a pool after calling end on the pool''), this'))
           \<and> search queryVector topK scope this'
               = Inl (Error ''Cannot use a pool after calling end on the pool'')
           \<and> clear scope this'
               = (Inl (Error ''Cannot use a pool after calling end on the pool''), this')
           \<and> count scope this' = Inl (Error ''Cannot use a pool after calling end on the pool'')
           \<and> Error ''Cannot use a pool after calling end on the pool'' \<noteq> NotInitializedError)"
proof -
  from assms have this': "this' = this\<lparr>pool_ended := True\<rparr>"
    by (auto simp: close_def split: if_splits)
  have flag: "initialized this' = initialized this \<and> pool_ended this' \<and> db this' = db this"
    by (simp add: this')
  have never: "store embedding this' = (Inl NotInitializedError, this')
           \<and> storeBatch batch this' = (Inl NotInitializedError, this')
           \<and> search queryVector topK scope this' = Inl NotInitializedError
           \<and> clear scope this' = (Inl NotInitializedError, this')
           \<and> count scope this' = Inl NotInitializedError"
    if "\<not> initialized this"
    using that
    by (simp add: this' store_def storeBatch_def search_def clear_def count_def
          ensureInitialized_def)
  have ended: "store embedding this'
               = (Inl (Error ''Cannot use a pool after calling end on the pool''), this')
           \<and> storeBatch batch this'
               = (if batch = [] then (Inr (), this')
                  else (Inl (Error ''Cannot use a pool after calling end on the pool''), this'))
           \<and> search queryVector topK scope this'
               = Inl (Error ''Cannot use a pool after calling end on the pool'')
           \<and> clear scope this'
               = (Inl (Error ''Cannot use a pool after calling end on the pool''), this')
           \<and> count scope this' = Inl (Error ''Cannot use a pool after calling end on the pool'')"
    if "initialized this"
    using that
    by (simp add: this' store_def storeBatch_def search_def clear_def count_def
          ensureInitialized_def pool_connect_def)
  have differ: "Error ''Cannot use a pool after calling end on the pool'' \<noteq> NotInitializedError"
    by (simp add: NotInitializedError_def)
  from flag never ended differ show ?thesis
    by blast
qed


text \<open>An embedding vector of 384 dimensions for a chunk of the entity \<open>entity-1\<close>.\<close>

definition sample_embedding :: "string \<Rightarrow> string \<Rightarrow> string \<Rightarrow> EmbeddingVector" where
  "sample_embedding i c src =
     \<lparr>ev_id = i, chunkId = c, vector = Some (replicate 384 (1 / 10)),
      documentChunk =
        \<lparr>dc_id = i, entityId = ''entity-1'', entityName = ''Entity 1'', content = ''Content'',
         metadata = \<lparr>source = src, chunkIndex = 0, totalChunks = 1\<rparr>\<rparr>\<rparr>"

theorem close_keeps_initialized_witness:
  "close new_store = (Inr (), new_store\<lparr>pool_ended := True\<rparr>)
   \<and> \<not> initialized new_store
   \<and> search [1] 5 None (new_store\<lparr>pool_ended := True\<rparr>) = Inl NotInitializedError
   \<and> close (new_store\<lparr>initialized := True\<rparr>)
       = (Inr (), new_store\<lparr>initialized := True, pool_ended := True\<rparr>)
   \<and> initialized (new_store\<lparr>initialized := True\<rparr>)
   \<and> initialized (new_store\<lparr>initialized := True, pool_ended := True\<rparr>)
   \<and> search [1] 5 None (new_store\<lparr>initialized := True, pool_ended := True\<rparr>)
       = Inl (Error ''Cannot use a pool after calling end on the pool'')
   \<and> storeBatch [] (new_store\<lparr>initialized := True, pool_ended := True\<rparr>)
       = (Inr (), new_store\<lparr>initialized := True, pool_ended := True\<rparr>)
   \<and> fst (storeBatch [sample_embedding ''a'' ''c'' ''catalog'']
            (new_store\<lparr>initialized := True, pool_ended := True\<rparr>))
       = Inl (Error ''Cannot use a pool after calling end on the pool'')"
proof -
  have c1: "close new_store = (Inr (), new_store\<lparr>pool_ended := True\<rparr>)"
    by (simp add: close_def new_store_def)
  have c2: "close (new_store\<lparr>initialized := True\<rparr>)
       = (Inr (), new_store\<lparr>initialized := True, pool_ended := True\<rparr>)"
    by (simp add: close_def new_store_def)
  have i1: "\<not> initialized new_store"
    by (simp add: new_store_def)
  have i2: "initialized (new_store\<lparr>initialized := True\<rparr>)"
    by simp
  note never = close_keeps_initialized [OF c1, of "sample_embedding ''a'' ''c'' ''catalog''"
      "[]" "[1]" 5 None]
  note ended = close_keeps_initialized [OF c2, of "sample_embedding ''a'' ''c'' ''catalog''"
      "[]" "[1]" 5 None]
  note ended' = close_keeps_initialized [OF c2, of "sample_embedding ''a'' ''c'' ''catalog''"
      "[sample_embedding ''a'' ''c'' ''catalog'']" "[1]" 5 None]
  from c1 c2 i1 i2 never ended ended' show ?thesis
    by simp
qed

subsection \<open>Batches\<close>

text \<open>
  What a batch asks for: every row applied to the table in order, by the upsert of the
  \<open>INSERT\<close>; the first row that cannot be applied makes the whole batch fail.
\<close>

fun upsert_all :: "EmbeddingVector list \<Rightarrow> row list \<Rightarrow> row list result" where
  "upsert_all [] tbl = Inr tbl"
| "upsert_all (embedding # rest) tbl =
     (case insert_values embedding of
        Inl e \<Rightarrow> Inl e
      | Inr r \<Rightarrow>
          (case insert_on_conflict r tbl of
             Inl e \<Rightarrow> Inl e
           | Inr tbl' \<Rightarrow> upsert_all rest tbl'))"

lemma insert_each_in_transaction:
  assumes "working c = Some w" "\<not> failed c"
  shows "case upsert_all batch w of
           Inr tbl \<Rightarrow> insert_each batch c = (Inr (), c\<lparr>working := Some tbl\<rparr>)
         | Inl e \<Rightarrow> fst (insert_each batch c) = Inl e
                    \<and> committed (snd (insert_each batch c)) = committed c"
  using assms
proof (induction batch arbitrary: c w)
  case Nil
  then show ?case by simp
next
  case (Cons embedding rest)
  show ?case
  proof (cases "insert_values embedding")
    case (Inl e)
    then show ?thesis by simp
  next
    case (Inr r)
    show ?thesis
    proof (cases "insert_on_conflict r w")
      case (Inl e)
      with Inr Cons.prems show ?thesis
        by (simp add: query_def)
    next
      case inserted: (Inr tbl')
      let ?c' = "c\<lparr>working := Some tbl'\<rparr>"
      have q: "query (INSERT r) c = (Inr (), ?c')"
        using Cons.prems inserted by (simp add: query_def)
      have w': "working ?c' = Some tbl'" "\<not> failed ?c'"
        using Cons.prems by simp_all
      from Cons.IH [OF w'] Inr inserted q show ?thesis
        by (simp split: sum.splits)
    qed
  qed
qed

lemma storeBatch_try_upsert_all:
  assumes "working client = None"
  shows "case upsert_all batch (committed client) of
           Inr tbl \<Rightarrow> storeBatch_try batch client = (Inr (), client\<lparr>committed := tbl, failed := False\<rparr>)
         | Inl e \<Rightarrow> fst (storeBatch_try batch client) = Inl e
                    \<and> committed (snd (storeBatch_try batch client)) = committed client"
proof -
  let ?c1 = "client\<lparr>working := Some (committed client), failed := False\<rparr>"
  have b: "query BEGIN client = (Inr (), ?c1)"
    by (simp add: query_def)
  have w: "working ?c1 = Some (committed client)" "\<not> failed ?c1"
    by simp_all
  show ?thesis
  proof (cases "upsert_all batch (committed client)")
    case (Inl e)
    with insert_each_in_transaction [OF w, of batch]
    have "fst (insert_each batch ?c1) = Inl e"
         "committed (snd (insert_each batch ?c1)) = committed client"
      by simp_all
    with Inl b show ?thesis
      by (cases "insert_each batch ?c1") (simp add: storeBatch_try_def)
  next
    case (Inr tbl)
    with insert_each_in_transaction [OF w, of batch]
    have "insert_each batch ?c1 = (Inr (), ?c1\<lparr>working := Some tbl\<rparr>)"
      by simp
    with Inr b assms show ?thesis
      by (simp add: storeBatch_try_def query_def)
  qed
qed

lemma release_unchanged:
  "committed c = embeddings_table (db this) \<Longrightarrow> release c this = this"
  by (simp add: release_def)

lemma storeBatch_cases:
  "storeBatch batch this =
     (if \<not> initialized this then (Inl NotInitializedError, this)
      else if batch = [] then (Inr (), this)
      else if pool_ended this
      then (Inl (Error ''Cannot use a pool after calling end on the pool''), this)
      else if \<not> accepting (db this) then (Inl (Error ''connect ECONNREFUSED''), this)
      else (case upsert_all batch (embeddings_table (db this)) of
              Inl e \<Rightarrow> (Inl e, this)
            | Inr tbl \<Rightarrow> (Inr (), this\<lparr>db := (db this)\<lparr>embeddings_table := tbl\<rparr>\<rparr>)))"
proof -
  let ?client = "\<lparr>committed = embeddings_table (db this), working = None, failed = False\<rparr>"
  have open_case: "storeBatch batch this =
      (case upsert_all batch (embeddings_table (db this)) of
              Inl e \<Rightarrow> (Inl e, this)
            | Inr tbl \<Rightarrow> (Inr (), this\<lparr>db := (db this)\<lparr>embeddings_table := tbl\<rparr>\<rparr>))"
    if ok: "initialized this" "batch \<noteq> []" "\<not> pool_ended this" "accepting (db this)"
  proof (cases "upsert_all batch (embeddings_table (db this))")
    case (Inl e)
    with storeBatch_try_upsert_all [of ?client batch]
    have t: "fst (storeBatch_try batch ?client) = Inl e"
            "committed (snd (storeBatch_try batch ?client)) = embeddings_table (db this)"
      by simp_all
    obtain c where c: "storeBatch_try batch ?client = (Inl e, c)"
      using t(1) by (cases "storeBatch_try batch ?client") simp
    with t(2) have "committed c = embeddings_table (db this)"
      by simp
    then have "release (c\<lparr>working := None, failed := False\<rparr>) this = this"
      by (simp add: release_def)
    with Inl ok c show ?thesis
      by (simp add: storeBatch_def ensureInitialized_def pool_connect_def query_def)
  next
    case (Inr tbl)
    with storeBatch_try_upsert_all [of ?client batch]
    have "storeBatch_try batch ?client = (Inr (), ?client\<lparr>committed := tbl, failed := False\<rparr>)"
      by simp
    with Inr ok show ?thesis
      by (simp add: storeBatch_def ensureInitialized_def pool_connect_def release_def)
  qed
  show ?thesis
    using open_case
    by (simp add: storeBatch_def ensureInitialized_def pool_connect_def)
qed

text \<open>
  C2: for every batch and every state of the store, \<open>storeBatch\<close> either commits all
  rows of the batch, applied in order, or rejects with an error and leaves the store, its
  rows and so its row count, exactly as they were; it rejects whenever a row of the batch
  fails.
\<close>

theorem storeBatch_atomic:
  "((\<exists>e. storeBatch batch this = (Inl e, this))
    \<or> (\<exists>tbl. upsert_all batch (embeddings_table (db this)) = Inr tbl
            \<and> storeBatch batch this = (Inr (), this\<lparr>db := (db this)\<lparr>embeddings_table := tbl\<rparr>\<rparr>)))
   \<and> (\<forall>e. upsert_all batch (embeddings_table (db this)) = Inl e \<longrightarrow>
          (\<exists>e'. storeBatch batch this = (Inl e', this)))
   \<and> (\<forall>e. fst (storeBatch batch this) = Inl e \<longrightarrow>
          snd (storeBatch batch this) = this
        \<and> count scope (snd (storeBatch batch this)) = count scope this)"
proof -
  have a: "(\<exists>e. storeBatch batch this = (Inl e, this))
    \<or> (\<exists>tbl. upsert_all batch (embeddings_table (db this)) = Inr tbl
            \<and> storeBatch batch this = (Inr (), this\<lparr>db := (db this)\<lparr>embeddings_table := tbl\<rparr>\<rparr>))"
    by (cases "upsert_all batch (embeddings_table (db this))")
       (auto simp: storeBatch_cases)
  have b: "\<exists>e'. storeBatch batch this = (Inl e', this)"
    if "upsert_all batch (embeddings_table (db this)) = Inl e" for e
  proof -
    from that have "batch \<noteq> []"
      by auto
    with that show ?thesis
      by (simp add: storeBatch_cases)
  qed
  have c: "snd (storeBatch batch this) = this" if "fst (storeBatch batch this) = Inl e" for e
    using a that by auto
  from a b c show ?thesis
    by auto
qed


text \<open>
  Two valid rows and one whose \<open>source\<close> breaks the \<open>CHECK\<close>, on an initialized store
  with no rows: the batch is rejected and the count stays 0. The two valid rows alone
  are committed together.
\<close>

definition ready_store :: PgVectorStore where
  "ready_store = new_store\<lparr>initialized := True\<rparr>"

lemma ready_store_fields:
  "initialized ready_store" "\<not> pool_ended ready_store" "accepting (db ready_store)"
  "embeddings_table (db ready_store) = []"
  by (simp_all add: ready_store_def new_store_def empty_database_def)

theorem storeBatch_atomic_witness:
  "upsert_all [sample_embedding ''valid-1'' ''chunk-1'' ''catalog'',
               sample_embedding ''valid-2'' ''chunk-2'' ''techdocs'',
               sample_embedding ''invalid-1'' ''chunk-3'' ''invalid-source''] []
     = Inl (Error ''new row for relation embeddings violates a constraint'')
   \<and> storeBatch [sample_embedding ''valid-1'' ''chunk-1'' ''catalog'',
                 sample_embedding ''valid-2'' ''chunk-2'' ''techdocs'',
                 sample_embedding ''invalid-1'' ''chunk-3'' ''invalid-source''] ready_store
     = (Inl (Error ''new row for relation embeddings violates a constraint''), ready_store)
   \<and> count None ready_store = Inr 0
   \<and> count None (snd (storeBatch [sample_embedding ''valid-1'' ''chunk-1'' ''catalog'',
                 sample_embedding ''valid-2'' ''chunk-2'' ''techdocs'',
                 sample_embedding ''invalid-1'' ''chunk-3'' ''invalid-source''] ready_store))
     = Inr 0
   \<and> fst (storeBatch [sample_embedding ''valid-1'' ''chunk-1'' ''catalog'',
                      sample_embedding ''valid-2'' ''chunk-2'' ''techdocs''] ready_store)
     = Inr ()
   \<and> count None (snd (storeBatch [sample_embedding ''valid-1'' ''chunk-1'' ''catalog'',
                      sample_embedding ''valid-2'' ''chunk-2'' ''techdocs''] ready_store))
     = Inr 2"
proof -
  let ?bad = "[sample_embedding ''valid-1'' ''chunk-1'' ''catalog'',
               sample_embedding ''valid-2'' ''chunk-2'' ''techdocs'',
               sample_embedding ''invalid-1'' ''chunk-3'' ''invalid-source'']"
  let ?good = "[sample_embedding ''valid-1'' ''chunk-1'' ''catalog'',
               sample_embedding ''valid-2'' ''chunk-2'' ''techdocs'']"
  let ?rows = "[\<lparr>row_id = ''valid-1'', row_chunk_id = ''chunk-1'', row_entity_id = ''entity-1'',
             row_entity_name = ''Entity 1'', row_vector = replicate 384 (1 / 10),
             row_content = ''Content'', row_source = ''catalog'', row_chunk_index = 0,
             row_total_chunks = 1\<rparr>,
            \<lparr>row_id = ''valid-2'', row_chunk_id = ''chunk-2'', row_entity_id = ''entity-1'',
             row_entity_name = ''Entity 1'', row_vector = replicate 384 (1 / 10),
             row_content = ''Content'', row_source = ''techdocs'', row_chunk_index = 0,
             row_total_chunks = 1\<rparr>]"
  have u: "upsert_all ?bad [] = Inl (Error ''new row for relation embeddings violates a constraint'')"
    by (simp add: sample_embedding_def insert_values_def insert_on_conflict_def
          satisfies_constraints_def same_key_def)
  have c0: "count None ready_store = Inr 0"
    by (simp add: count_def ensureInitialized_def pool_connect_def truthy_def
          ready_store_fields)
  have u': "upsert_all ?bad (embeddings_table (db ready_store))
              = Inl (Error ''new row for relation embeddings violates a constraint'')"
    using u by (simp only: ready_store_fields)
  from storeBatch_atomic [of ?bad ready_store None] u'
  obtain e' where r: "storeBatch ?bad ready_store = (Inl e', ready_store)"
    by blast
  have "storeBatch ?bad ready_store
          = (Inl (Error ''new row for relation embeddings violates a constraint''), ready_store)"
    by (subst storeBatch_cases) (simp add: u ready_store_fields del: upsert_all.simps)
  with r have e': "e' = Error ''new row for relation embeddings violates a constraint''"
    by simp
  have g: "upsert_all ?good [] = Inr ?rows"
    by (simp add: sample_embedding_def insert_values_def insert_on_conflict_def
          satisfies_constraints_def same_key_def)
  have g': "upsert_all ?good (embeddings_table (db ready_store)) = Inr ?rows"
    using g by (simp only: ready_store_fields)
  have sg: "storeBatch ?good ready_store
              = (Inr (), ready_store\<lparr>db := (db ready_store)\<lparr>embeddings_table := ?rows\<rparr>\<rparr>)"
    by (subst storeBatch_cases) (simp add: g ready_store_fields del: upsert_all.simps)
  have c2: "count None (ready_store\<lparr>db := (db ready_store)\<lparr>embeddings_table := ?rows\<rparr>\<rparr>) = Inr 2"
    by (simp add: count_def ensureInitialized_def pool_connect_def truthy_def
          ready_store_fields)
  from u r e' c0 sg c2 show ?thesis
    by simp
qed


section \<open>InMemoryVectorStore\<close>

text \<open>
  The store's \<open>Map\<close> from id to embedding vector, as the list of its entries in
  insertion order. \<open>Map.prototype.set\<close> replaces the value of a key that is present, in
  its place, and appends a new key.
\<close>

type_synonym InMemoryVectorStore = "(string \<times> EmbeddingVector) list"

fun map_set :: "'k \<Rightarrow> 'v \<Rightarrow> ('k \<times> 'v) list \<Rightarrow> ('k \<times> 'v) list" where
  "map_set k v [] = [(k, v)]"
| "map_set k v (entry # entries) =
     (if fst entry = k then (k, v) # entries else entry # map_set k v entries)"

definition mem_store :: "EmbeddingVector \<Rightarrow> InMemoryVectorStore \<Rightarrow> InMemoryVectorStore" where
  "mem_store embedding vectors = map_set (ev_id embedding) embedding vectors"

definition mem_storeBatch :: "EmbeddingVector list \<Rightarrow> InMemoryVectorStore \<Rightarrow> InMemoryVectorStore" where
  "mem_storeBatch batch vectors = foldl (\<lambda>m embedding. mem_store embedding m) vectors batch"

definition mem_clear :: "InMemoryVectorStore \<Rightarrow> InMemoryVectorStore" where
  "mem_clear vectors = []"

definition mem_count :: "InMemoryVectorStore \<Rightarrow> nat" where
  "mem_count vectors = length vectors"

text \<open>
  The loop of \<open>cosineSimilarity\<close>, with its three accumulators \<open>dotProduct\<close>,
  \<open>normA\<close> and \<open>normB\<close>; it runs over two arrays of the same length. Every product
  and every sum is rounded.
\<close>

fun cosine_sums ::
    "real list \<Rightarrow> real list \<Rightarrow> number \<times> number \<times> number \<Rightarrow> number \<times> number \<times> number" where
  "cosine_sums (x # xs) (y # ys) (dotProduct, normA, normB) =
     cosine_sums xs ys
       (fl_add dotProduct (fl_mul (Fin x) (Fin y)),
        fl_add normA (fl_mul (Fin x) (Fin x)),
        fl_add normB (fl_mul (Fin y) (Fin y)))"
| "cosine_sums xs ys acc = acc"

definition cosineSimilarity :: "real list \<Rightarrow> real list \<Rightarrow> number result" where
  "cosineSimilarity a b =
     (if length a \<noteq> length b then Inl (Error ''Vectors must have the same length'')
      else (case cosine_sums a b (Fin 0, Fin 0, Fin 0) of
              (dotProduct, normA, normB) \<Rightarrow>
                (let denominator = fl_mul (fl_sqrt normA) (fl_sqrt normB)
                 in if denominator = Fin 0 then Inr (Fin 0)
                    else Inr (fl_div dotProduct denominator))))"

text \<open>
  The loop of \<open>search\<close> that scores the vectors; it ends at the first error. Reading
  \<open>length\<close> of a vector that is \<open>undefined\<close> throws a \<open>TypeError\<close>.
\<close>

fun score_all :: "real list \<Rightarrow> EmbeddingVector list \<Rightarrow> SearchResult list result" where
  "score_all queryVector [] = Inr []"
| "score_all queryVector (embedding # rest) =
     (case vector embedding of
        None \<Rightarrow> Inl (Error ''Cannot read properties of undefined (reading 'length')'')
      | Some v \<Rightarrow>
          (case cosineSimilarity queryVector v of
             Inl e \<Rightarrow> Inl e
           | Inr s \<Rightarrow>
               (case score_all queryVector rest of
                  Inl e \<Rightarrow> Inl e
                | Inr results \<Rightarrow>
                    Inr (\<lparr>sr_documentChunk = documentChunk embedding, similarity = s\<rparr> # results))))"

definition vectorsToSearch :: "string option \<Rightarrow> InMemoryVectorStore \<Rightarrow> EmbeddingVector list" where
  "vectorsToSearch scope vectors =
     (if truthy scope
      then filter (\<lambda>v. Some (entityId (documentChunk v)) = scope) (map snd vectors)
      else map snd vectors)"

text \<open>
  \<open>Array.prototype.sort(comparefn)\<close> is a stable sort: \<open>x\<close> comes after \<open>y\<close> when
  \<open>comparefn(x, y) > 0\<close>, and a result that is NaN counts as 0. With a comparison
  function that is consistent, the result is that of the stable insertion sort. When a
  similarity is NaN, \<open>(a, b) => b.similarity - a.similarity\<close> is not consistent and
  the order is left to the implementation; the model takes the insertion sort's.
\<close>

definition array_sort :: "('a \<Rightarrow> 'a \<Rightarrow> number) \<Rightarrow> 'a list \<Rightarrow> 'a list" where
  "array_sort comparefn xs = insertion_sort (\<lambda>x y. number_less (Fin 0) (comparefn x y)) xs"

definition mem_search ::
    "real list \<Rightarrow> int \<Rightarrow> string option \<Rightarrow> InMemoryVectorStore \<Rightarrow> SearchResult list result" where
  "mem_search queryVector topK scope vectors =
     (case score_all queryVector (vectorsToSearch scope vectors) of
        Inl e \<Rightarrow> Inl e
      | Inr results \<Rightarrow>
          Inr (slice (array_sort (\<lambda>a b. fl_sub (similarity b) (similarity a)) results) 0 topK))"

text \<open>
  Stores for the examples: three vectors of two dimensions; the vector \<open>[1, 1, 1]\<close>;
  two vectors whose one component is \<open>2 ^ 600\<close>, a double near \<open>4.15e180\<close>.
\<close>

definition huge :: real where
  "huge = 2 ^ 600"

definition unit_chunk :: "string \<Rightarrow> DocumentChunk" where
  "unit_chunk i =
     \<lparr>dc_id = i, entityId = ''entity-1'', entityName = ''Entity 1'', content = ''Content'',
      metadata = \<lparr>source = ''catalog'', chunkIndex = 0, totalChunks = 1\<rparr>\<rparr>"

definition three_vectors :: InMemoryVectorStore where
  "three_vectors =
     mem_storeBatch
       [\<lparr>ev_id = ''a'', chunkId = ''a'', vector = Some [0, 1], documentChunk = unit_chunk ''a''\<rparr>,
        \<lparr>ev_id = ''b'', chunkId = ''b'', vector = Some [1, 0], documentChunk = unit_chunk ''b''\<rparr>,
        \<lparr>ev_id = ''c'', chunkId = ''c'', vector = Some [- 1, 0], documentChunk = unit_chunk ''c''\<rparr>]
       []"

definition ones_vector :: InMemoryVectorStore where
  "ones_vector =
     mem_storeBatch
       [\<lparr>ev_id = ''a'', chunkId = ''a'', vector = Some [1, 1, 1], documentChunk = unit_chunk ''a''\<rparr>]
       []"

definition huge_vectors :: InMemoryVectorStore where
  "huge_vectors =
     mem_storeBatch
       [\<lparr>ev_id = ''a'', chunkId = ''a'', vector = Some [huge], documentChunk = unit_chunk ''a''\<rparr>,
        \<lparr>ev_id = ''b'', chunkId = ''b'', vector = Some [huge], documentChunk = unit_chunk ''b''\<rparr>]
       []"

text \<open>
  A distance operator for the examples. Like the \<open><=>\<close> of pgvector it is
  \<open>1 - dot / sqrt (normA * normB)\<close> with the quotient kept in \<open>[-1, 1]\<close>, and its
  quotient is \<open>0 / 0\<close>, hence NaN, when one of the two vectors is zero. It adds up in
  double precision, where pgvector adds up in single precision.
\<close>

definition example_distance :: "real list \<Rightarrow> real list \<Rightarrow> number" where
  "example_distance a b =
     (case cosine_sums a b (Fin 0, Fin 0, Fin 0) of
        (dotProduct, normA, normB) \<Rightarrow>
          (let s = fl_div dotProduct (fl_sqrt (fl_mul normA normB))
           in fl_sub (Fin 1)
                (if number_less (Fin 1) s then Fin 1
                 else if number_less s (Fin (- 1)) then Fin (- 1) else s)))"

text \<open>
  A vector of 384 dimensions that is zero after its first two components, and an
  initialized store on a database with two rows, which a scan reaches.
\<close>

definition padded :: "real \<Rightarrow> real \<Rightarrow> real list" where
  "padded x y = x # y # replicate 382 0"

definition sample_row :: "string \<Rightarrow> real list \<Rightarrow> row" where
  "sample_row i v =
     \<lparr>row_id = i, row_chunk_id = i, row_entity_id = ''entity-1'', row_entity_name = ''Entity 1'',
      row_vector = v, row_content = ''Content'', row_source = ''catalog'', row_chunk_index = 0,
      row_total_chunks = 1\<rparr>"

definition two_rows_store :: PgVectorStore where
  "two_rows_store =
     \<lparr>initialized = True, pool_ended = False,
      db = \<lparr>accepting = True, extension_installed = True, table_exists = True,
            embeddings_table = [sample_row ''a'' (padded 0 1), sample_row ''b'' (padded 1 0)],
            cosine_distance = example_distance, scan_reaches = (\<lambda>q x. True)\<rparr>\<rparr>"

subsection \<open>Rounding\<close>

text \<open>
  A finite double is a multiple of \<open>pow2 (- 1074)\<close>, and so is every finite result
  of an operation.
\<close>

definition representable :: "real \<Rightarrow> bool" where
  "representable x = (\<exists>k :: int. x = of_int k * pow2 (- 1074))"

fun double :: "number \<Rightarrow> bool" where
  "double (Fin x) = representable x"
| "double y = True"

lemma pow2_powr: "pow2 k = 2 powr (of_int k)"
proof (cases "0 \<le> k")
  case True
  have "(2::real) powr real (nat k) = 2 ^ nat k" by (rule powr_realpow) simp
  moreover have "real (nat k) = of_int k" using True by simp
  ultimately have "(2::real) powr of_int k = 2 ^ nat k" by (simp only:)
  then show ?thesis using True by (simp only: pow2_def if_True)
next
  case False
  have "(2::real) powr real (nat (- k)) = 2 ^ nat (- k)" by (rule powr_realpow) simp
  moreover have "real (nat (- k)) = - of_int k" using False by simp
  ultimately have "(2::real) powr (- of_int k) = 2 ^ nat (- k)" by (simp only:)
  moreover have "(2::real) powr of_int k = 1 / 2 powr (- of_int k)" by (simp add: powr_minus_divide)
  ultimately show ?thesis using False by (simp only: pow2_def if_False)
qed

lemma pow2_pos: "0 < pow2 k"
  by (simp add: pow2_powr)

lemma pow2_add: "pow2 (a + b) = pow2 a * pow2 b"
  by (simp add: pow2_powr powr_add)

lemma pow2_le_iff: "pow2 a \<le> pow2 b \<longleftrightarrow> a \<le> b"
  by (simp add: pow2_powr)

lemma pow2_less_iff: "pow2 a < pow2 b \<longleftrightarrow> a < b"
  by (simp add: pow2_powr)

lemma pow2_nat: "0 \<le> k \<Longrightarrow> pow2 k = of_int (2 ^ nat k)"
  by (simp add: pow2_def)

lemma round_half_even_of_int: "round_half_even (of_int n) = n"
  by (simp add: round_half_even_def)

lemma round_half_even_unique:
  assumes "of_int n - 1 / 2 < t" and "t < of_int n + 1 / 2"
  shows "round_half_even t = n"
proof (cases "of_int n \<le> t")
  case True
  with assms have "\<lfloor>t\<rfloor> = n" by (intro floor_unique) auto
  with assms show ?thesis by (simp add: round_half_even_def Let_def)
next
  case False
  with assms have "\<lfloor>t\<rfloor> = n - 1" by (intro floor_unique) auto
  with assms False show ?thesis by (simp add: round_half_even_def Let_def)
qed

lemma round_half_even_bounds: "\<lfloor>t\<rfloor> \<le> round_half_even t \<and> round_half_even t \<le> \<lfloor>t\<rfloor> + 1"
  by (simp add: round_half_even_def Let_def)

lemma round_half_even_mono:
  assumes "a \<le> b"
  shows "round_half_even a \<le> round_half_even b"
proof (cases "\<lfloor>a\<rfloor> = \<lfloor>b\<rfloor>")
  case True
  with assms have "a - of_int \<lfloor>a\<rfloor> \<le> b - of_int \<lfloor>b\<rfloor>" by simp
  with True show ?thesis by (auto simp add: round_half_even_def Let_def)
next
  case False
  with assms have "\<lfloor>a\<rfloor> + 1 \<le> \<lfloor>b\<rfloor>" using floor_mono [OF assms] by linarith
  with round_half_even_bounds [of a] round_half_even_bounds [of b] show ?thesis by linarith
qed

lemma exponent_spec:
  assumes "0 < x"
  shows "pow2 (exponent x) \<le> x \<and> x < pow2 (exponent x + 1)"
proof (cases "1 \<le> x")
  case True
  let ?n = "\<lfloor>x\<rfloor>"
  from True have n: "0 < ?n" by simp
  from bitlen_bounds [OF n] have lo: "2 ^ nat (bitlen ?n - 1) \<le> ?n" and hi: "?n < 2 ^ nat (bitlen ?n)"
    by simp_all
  from n have b: "1 \<le> bitlen ?n" by (auto simp add: bitlen_alt_def)
  have e: "exponent x = bitlen ?n - 1" using True by (simp add: exponent_def)
  have "pow2 (bitlen ?n - 1) = of_int (2 ^ nat (bitlen ?n - 1))" using b by (simp add: pow2_nat)
  also have "\<dots> \<le> of_int ?n" using lo by (simp only: of_int_le_iff)
  also have "\<dots> \<le> x" by simp
  finally have l: "pow2 (exponent x) \<le> x" by (simp add: e)
  from hi have "?n + 1 \<le> 2 ^ nat (bitlen ?n)" by simp
  then have "of_int (?n + 1) \<le> (of_int (2 ^ nat (bitlen ?n)) :: real)" by (simp only: of_int_le_iff)
  then have h1: "of_int ?n + 1 \<le> (2 ^ nat (bitlen ?n) :: real)" by simp
  have h2: "x < of_int ?n + 1" by linarith
  have h3: "pow2 (exponent x + 1) = 2 ^ nat (bitlen ?n)" using b by (simp add: e pow2_def)
  from h1 h2 h3 have "x < pow2 (exponent x + 1)" by linarith
  with l show ?thesis by simp
next
  case False
  let ?m = "\<lceil>1 / x\<rceil> - 1"
  from False assms have "1 < 1 / x" by simp
  then have m: "0 < ?m" by linarith
  from bitlen_bounds [OF m] have lo: "2 ^ nat (bitlen ?m - 1) \<le> ?m" and hi: "?m < 2 ^ nat (bitlen ?m)"
    by simp_all
  from m have b: "1 \<le> bitlen ?m" by (auto simp add: bitlen_alt_def)
  have e: "exponent x = - bitlen ?m" using False by (simp add: exponent_def)
  have p: "pow2 (- bitlen ?m) = 1 / of_int (2 ^ nat (bitlen ?m))" using b by (simp add: pow2_def)
  have "1 / x \<le> of_int (?m + 1)" by (simp add: le_of_int_ceiling)
  also have "\<dots> \<le> of_int (2 ^ nat (bitlen ?m))" using hi by (simp only: of_int_le_iff)
  finally have "1 / x \<le> of_int (2 ^ nat (bitlen ?m))" .
  then have l: "pow2 (exponent x) \<le> x" using assms by (simp add: e p field_simps)
  have q: "pow2 (exponent x + 1) = 1 / of_int (2 ^ nat (bitlen ?m - 1))"
  proof (cases "bitlen ?m = 1")
    case True then show ?thesis by (simp add: e pow2_def)
  next
    case False
    with b have "- bitlen ?m + 1 < 0" by simp
    moreover have "nat (- (- bitlen ?m + 1)) = nat (bitlen ?m - 1)" by simp
    ultimately show ?thesis by (simp add: e pow2_def)
  qed
  have "(of_int (2 ^ nat (bitlen ?m - 1)) :: real) \<le> of_int ?m" using lo by (simp only: of_int_le_iff)
  also have "of_int ?m < 1 / x" by linarith
  finally have "of_int (2 ^ nat (bitlen ?m - 1)) < 1 / x" .
  then have "x < 1 / of_int (2 ^ nat (bitlen ?m - 1))" using assms by (simp add: field_simps)
  then have "x < pow2 (exponent x + 1)" by (simp only: q)
  with l show ?thesis by simp
qed

lemma exponent_unique:
  assumes "pow2 e \<le> x" and "x < pow2 (e + 1)"
  shows "exponent x = e"
proof -
  from assms have x: "0 < x" using pow2_pos [of e] by linarith
  from exponent_spec [OF x] assms have "pow2 (exponent x) < pow2 (e + 1)" "pow2 e < pow2 (exponent x + 1)"
    by linarith+
  then show ?thesis by (simp add: pow2_less_iff)
qed

lemma exponent_mono:
  assumes "0 < x" and "x \<le> y"
  shows "exponent x \<le> exponent y"
proof -
  from assms have y: "0 < y" by simp
  from exponent_spec [OF assms(1)] exponent_spec [OF y] assms(2)
  have "pow2 (exponent x) < pow2 (exponent y + 1)" by linarith
  then show ?thesis by (simp add: pow2_less_iff)
qed


lemma pow2_diff_nat: "b \<le> a \<Longrightarrow> pow2 a / pow2 b = of_int (2 ^ nat (a - b))"
proof -
  assume "b \<le> a"
  then have "pow2 (a - b) = of_int (2 ^ nat (a - b))" by (simp add: pow2_nat)
  moreover have "pow2 a = pow2 (a - b) * pow2 b" by (simp add: pow2_add [symmetric])
  ultimately show ?thesis using pow2_pos [of b] by simp
qed

lemma nearest_lower:
  assumes "0 < m" and "- 1022 \<le> exponent m"
  shows "pow2 (exponent m) \<le> nearest m"
proof -
  let ?E = "exponent m"
  let ?u = "pow2 (?E - 52)"
  have u: "0 < ?u" by (rule pow2_pos)
  from assms have n: "nearest m = of_int (round_half_even (m / ?u)) * ?u"
    by (simp add: nearest_def Let_def max_def)
  from exponent_spec [OF assms(1)] have "pow2 ?E \<le> m" by simp
  then have "pow2 ?E / ?u \<le> m / ?u" using u by (simp add: divide_right_mono)
  moreover have d: "pow2 ?E / ?u = of_int (2 ^ nat 52)" using pow2_diff_nat [of "?E - 52" ?E] by simp
  ultimately have "of_int (2 ^ nat 52) \<le> m / ?u" by simp
  from round_half_even_mono [OF this]
  have "2 ^ nat 52 \<le> round_half_even (m / ?u)" by (simp only: round_half_even_of_int)
  then have "(of_int (2 ^ nat 52) :: real) \<le> of_int (round_half_even (m / ?u))"
    by (simp only: of_int_le_iff)
  then have "of_int (2 ^ nat 52) * ?u \<le> of_int (round_half_even (m / ?u)) * ?u"
    using u by (simp only: mult_le_cancel_right_pos)
  moreover have "of_int (2 ^ nat 52) * ?u = pow2 ?E" using d u by (simp add: field_simps)
  ultimately show ?thesis by (simp only: n)
qed

lemma nearest_upper:
  assumes "0 < m"
  shows "nearest m \<le> pow2 (max (exponent m) (- 1022) + 1)"
proof -
  let ?E = "max (exponent m) (- 1022)"
  let ?u = "pow2 (?E - 52)"
  have u: "0 < ?u" by (rule pow2_pos)
  have n: "nearest m = of_int (round_half_even (m / ?u)) * ?u"
    by (simp add: nearest_def Let_def)
  from exponent_spec [OF assms] have "m < pow2 (exponent m + 1)" by simp
  also have "\<dots> \<le> pow2 (?E + 1)" by (simp add: pow2_le_iff)
  finally have "m \<le> pow2 (?E + 1)" by simp
  then have "m / ?u \<le> pow2 (?E + 1) / ?u" using u by (simp add: divide_right_mono)
  moreover have d: "pow2 (?E + 1) / ?u = of_int (2 ^ nat 53)"
    using pow2_diff_nat [of "?E - 52" "?E + 1"] by simp
  ultimately have "m / ?u \<le> of_int (2 ^ nat 53)" by simp
  from round_half_even_mono [OF this]
  have "round_half_even (m / ?u) \<le> 2 ^ nat 53" by (simp only: round_half_even_of_int)
  then have "(of_int (round_half_even (m / ?u)) :: real) \<le> of_int (2 ^ nat 53)"
    by (simp only: of_int_le_iff)
  then have "of_int (round_half_even (m / ?u)) * ?u \<le> of_int (2 ^ nat 53) * ?u"
    using u by (simp only: mult_le_cancel_right_pos)
  moreover have "of_int (2 ^ nat 53) * ?u = pow2 (?E + 1)" using d u by (simp add: field_simps)
  ultimately show ?thesis by (simp only: n)
qed

lemma nearest_nonneg:
  assumes "0 < m"
  shows "0 \<le> nearest m"
proof -
  let ?u = "pow2 (max (exponent m) (- 1022) - 52)"
  have u: "0 < ?u" by (rule pow2_pos)
  with assms have "0 \<le> m / ?u" by simp
  then have "0 \<le> \<lfloor>m / ?u\<rfloor>" by simp
  with round_half_even_bounds [of "m / ?u"] have "0 \<le> round_half_even (m / ?u)" by linarith
  then show ?thesis using u by (simp add: nearest_def Let_def)
qed

lemma nearest_mono:
  assumes "0 < x" and "x \<le> y"
  shows "nearest x \<le> nearest y"
proof -
  let ?Ex = "max (exponent x) (- 1022)"
  let ?Ey = "max (exponent y) (- 1022)"
  from assms have y: "0 < y" by simp
  from exponent_mono [OF assms] have le: "?Ex \<le> ?Ey" by simp
  show ?thesis
  proof (cases "?Ex = ?Ey")
    case True
    let ?u = "pow2 (?Ex - 52)"
    have u: "0 < ?u" by (rule pow2_pos)
    from assms(2) u have "x / ?u \<le> y / ?u" by (simp add: divide_right_mono)
    from round_half_even_mono [OF this]
    have "(of_int (round_half_even (x / ?u)) :: real) \<le> of_int (round_half_even (y / ?u))"
      by (simp only: of_int_le_iff)
    then have "of_int (round_half_even (x / ?u)) * ?u \<le> of_int (round_half_even (y / ?u)) * ?u"
      using u by (simp only: mult_le_cancel_right_pos)
    then show ?thesis using True by (simp add: nearest_def Let_def)
  next
    case False
    with le have lt: "?Ex + 1 \<le> ?Ey" by simp
    then have e: "?Ey = exponent y" and r: "- 1022 \<le> exponent y" by (simp_all add: max_def split: if_splits)
    have "nearest x \<le> pow2 (?Ex + 1)" by (rule nearest_upper [OF assms(1)])
    also have "\<dots> \<le> pow2 ?Ey" using lt by (simp only: pow2_le_iff)
    also have "\<dots> = pow2 (exponent y)" by (simp only: e)
    also have "\<dots> \<le> nearest y" by (rule nearest_lower [OF y r])
    finally show ?thesis .
  qed
qed

lemma nearest_pow2:
  assumes "- 1074 \<le> k"
  shows "nearest (pow2 k) = pow2 k"
proof -
  have e: "exponent (pow2 k) = k" by (rule exponent_unique) (simp_all add: pow2_le_iff pow2_less_iff)
  let ?q = "max k (- 1022) - 52"
  from assms have q: "?q \<le> k" by simp
  have "pow2 k / pow2 ?q = of_int (2 ^ nat (k - ?q))" by (rule pow2_diff_nat [OF q])
  then have "of_int (round_half_even (pow2 k / pow2 ?q)) * pow2 ?q = pow2 k / pow2 ?q * pow2 ?q"
    by (simp only: round_half_even_of_int)
  also have "\<dots> = pow2 k" using pow2_pos [of ?q] by simp
  finally show ?thesis by (simp add: nearest_def Let_def e)
qed

lemma nearest_representable: "representable (nearest m)"
proof -
  let ?q = "max (exponent m) (- 1022) - 52"
  have "- 1074 \<le> ?q" by simp
  from pow2_diff_nat [OF this] have "pow2 ?q = of_int (2 ^ nat (?q + 1074)) * pow2 (- 1074)"
    using pow2_pos [of "- 1074"] by (simp add: field_simps)
  then have "nearest m = of_int (round_half_even (m / pow2 ?q) * 2 ^ nat (?q + 1074)) * pow2 (- 1074)"
    by (simp add: nearest_def Let_def)
  then show ?thesis unfolding representable_def by blast
qed

lemma representable_diff:
  assumes "representable a" and "representable b" and "a < b"
  shows "pow2 (- 1074) \<le> b - a"
proof -
  from assms obtain i j :: int where a: "a = of_int i * pow2 (- 1074)" and b: "b = of_int j * pow2 (- 1074)"
    unfolding representable_def by blast
  with assms(3) pow2_pos [of "- 1074"] have "(of_int i :: real) < of_int j" by simp
  then have "i + 1 \<le> j" by simp
  then have "(of_int (i + 1) :: real) \<le> of_int j" by (simp only: of_int_le_iff)
  then have "(of_int i + 1) * pow2 (- 1074) \<le> of_int j * pow2 (- 1074)"
    using pow2_pos [of "- 1074"] by simp
  then show ?thesis by (simp add: a b algebra_simps)
qed


lemma number_less_PosInf: "\<not> number_less PosInf y"
  by (cases y) simp_all

lemma number_less_NegInf: "\<not> number_less x NegInf"
  by (cases x) simp_all

lemma round_double_mono:
  assumes "x \<le> y"
  shows "number_le (round_double x) (round_double y)"
proof -
  have pos: "nearest a \<le> nearest b" if "0 < a" "a \<le> b" for a b
    by (rule nearest_mono [OF that])
  have nn: "0 \<le> nearest a" if "0 < a" for a
    by (rule nearest_nonneg [OF that])
  have p: "0 < pow2 1024" by (rule pow2_pos)
  consider "y < 0" | "x < 0" "y = 0" | "x < 0" "0 < y" | "x = 0" "y = 0" | "x = 0" "0 < y" | "0 < x"
    using assms by linarith
  then show ?thesis
  proof cases
    case 1
    with assms have "nearest \<bar>y\<bar> \<le> nearest \<bar>x\<bar>" by (intro pos) auto
    with 1 assms show ?thesis by (auto simp add: round_double_def number_le_def)
  next
    case 2
    with nn [of "\<bar>x\<bar>"] show ?thesis by (auto simp add: round_double_def number_le_def)
  next
    case 3
    with nn [of "\<bar>x\<bar>"] nn [of "\<bar>y\<bar>"] show ?thesis by (auto simp add: round_double_def number_le_def)
  next
    case 4
    then show ?thesis by (simp add: round_double_def number_le_def)
  next
    case 5
    with nn [of "\<bar>y\<bar>"] show ?thesis by (auto simp add: round_double_def number_le_def)
  next
    case 6
    with assms have "nearest \<bar>x\<bar> \<le> nearest \<bar>y\<bar>" by (intro pos) auto
    with 6 assms show ?thesis by (auto simp add: round_double_def number_le_def)
  qed
qed

lemma round_double_not_NaN: "round_double x \<noteq> NaN"
  by (simp add: round_double_def)

lemma representable_0: "representable 0"
  unfolding representable_def by (rule exI [of _ 0]) simp

lemma representable_minus: "representable x \<Longrightarrow> representable (- x)"
  unfolding representable_def
proof -
  assume "\<exists>k :: int. x = of_int k * pow2 (- 1074)"
  then obtain k :: int where "x = of_int k * pow2 (- 1074)" by blast
  then have "- x = of_int (- k) * pow2 (- 1074)" by simp
  then show "\<exists>k :: int. - x = of_int k * pow2 (- 1074)" by blast
qed

lemma double_round_double: "double (round_double x)"
  by (simp add: round_double_def representable_0 representable_minus nearest_representable)

lemma round_double_pow2: "- 1074 \<le> k \<Longrightarrow> k < 1024 \<Longrightarrow> round_double (pow2 k) = Fin (pow2 k)"
  using pow2_pos [of k] by (simp add: round_double_def nearest_pow2 pow2_le_iff)

lemma round_double_0: "round_double 0 = Fin 0"
  by (simp add: round_double_def)

text \<open>The sign of a difference of two doubles is the sign of the exact difference.\<close>

lemma fl_sub_positive:
  assumes "double x" and "double y" and "x \<noteq> NaN" and "y \<noteq> NaN"
  shows "number_less (Fin 0) (fl_sub y x) \<longleftrightarrow> number_less x y"
proof (cases "\<exists>a b. x = Fin a \<and> y = Fin b")
  case True
  then obtain a b where x: "x = Fin a" and y: "y = Fin b" by blast
  from assms x y have r: "representable a" "representable b" by simp_all
  show ?thesis
  proof (cases "a < b")
    case True
    from representable_diff [OF r True] have "pow2 (- 1074) \<le> b - a" .
    from round_double_mono [OF this]
    have "number_le (Fin (pow2 (- 1074))) (round_double (b - a))"
      by (simp add: round_double_pow2)
    then have "number_less (Fin 0) (round_double (b - a))"
      using pow2_pos [of "- 1074"]
      by (cases "round_double (b - a)") (auto simp add: number_le_def)
    with True show ?thesis by (simp add: x y)
  next
    case False
    then have "b - a \<le> 0" by simp
    from round_double_mono [OF this]
    have "number_le (round_double (b - a)) (Fin 0)" by (simp add: round_double_0)
    then have "\<not> number_less (Fin 0) (round_double (b - a))" by (simp add: number_le_def)
    with False show ?thesis by (simp add: x y)
  qed
next
  case False
  with assms(3,4) show ?thesis by (cases x; cases y) auto
qed

lemma fl_sub_antimono:
  assumes "number_le d e"
  shows "number_le (fl_sub (Fin 1) e) (fl_sub (Fin 1) d)"
proof (cases "\<exists>a b. d = Fin a \<and> e = Fin b")
  case True
  then obtain a b where d: "d = Fin a" and e: "e = Fin b" by blast
  with assms have "1 - b \<le> 1 - a" by (simp add: number_le_def)
  from round_double_mono [OF this] show ?thesis by (simp add: d e)
next
  case False
  with assms show ?thesis
    using round_double_not_NaN
    by (cases d; cases e) (auto simp add: number_le_def number_less_PosInf number_less_NegInf)
qed


subsection \<open>Values of the examples\<close>

lemma round_double_nearest:
  assumes "pow2 e \<le> x" and "x < pow2 (e + 1)" and "- 1022 \<le> e"
    and "of_int n - 1 / 2 < x / pow2 (e - 52)" and "x / pow2 (e - 52) < of_int n + 1 / 2"
    and "of_int n * pow2 (e - 52) < pow2 1024"
  shows "round_double x = Fin (of_int n * pow2 (e - 52))"
proof -
  from assms(1) pow2_pos [of e] have x: "0 < x" by linarith
  have e: "exponent x = e" by (rule exponent_unique [OF assms(1,2)])
  from round_half_even_unique [OF assms(4,5)] assms(3)
  have "nearest x = of_int n * pow2 (e - 52)" by (simp add: nearest_def Let_def e max_def)
  with x assms(6) show ?thesis by (simp add: round_double_def)
qed

lemma round_double_minus_pow2:
  "- 1074 \<le> k \<Longrightarrow> k < 1024 \<Longrightarrow> round_double (- pow2 k) = Fin (- pow2 k)"
  using pow2_pos [of k] by (simp add: round_double_def nearest_pow2 pow2_le_iff)

lemma round_double_overflow:
  assumes "pow2 1024 \<le> x"
  shows "round_double x = PosInf"
proof -
  have p: "0 < pow2 1024" by (rule pow2_pos)
  from nearest_mono [OF p assms] have "pow2 1024 \<le> nearest x" by (simp add: nearest_pow2)
  with p assms show ?thesis by (simp add: round_double_def)
qed

lemma round_double_1: "round_double 1 = Fin 1"
  using round_double_pow2 [of 0] by (simp add: pow2_def)

lemma round_double_2: "round_double 2 = Fin 2"
  using round_double_pow2 [of 1] by (simp add: pow2_def)

lemma round_double_3: "round_double 3 = Fin 3"
  using round_double_nearest [of 1 3 "3 * 2 ^ 51"] by (simp add: pow2_def)

lemma round_double_minus_1: "round_double (- 1) = Fin (- 1)"
  using round_double_minus_pow2 [of 0] by (simp add: pow2_def)

lemma round_double_minus_2: "round_double (- 2) = Fin (- 2)"
  using round_double_minus_pow2 [of 1] by (simp add: pow2_def)

lemmas round_double_values =
  round_double_0 round_double_1 round_double_2 round_double_3 round_double_minus_1
  round_double_minus_2

text \<open>
  \<open>cosineSimilarity\<close> of \<open>[1, 1, 1]\<close> with itself. The three sums are 3;
  \<open>Math.sqrt(3)\<close> is 1.7320508075688772, its square is rounded to
  2.9999999999999996, and 3 divided by that is rounded to 1.0000000000000002.
\<close>

lemma cosineSimilarity_ones:
  "cosineSimilarity [1, 1, 1] [1, 1, 1] = Inr (Fin (1 + 1 / 2 ^ 52))"
proof -
  define s :: real where "s = 7800463371553962 / 2 ^ 52"
  define d :: real where "d = 6755399441055743 / 2 ^ 51"
  have lo: "(7800463371553962 - 1 / 2) / 2 ^ 52 < sqrt 3"
    by (rule real_less_rsqrt) (simp add: power2_eq_square)
  have hi: "sqrt 3 < (7800463371553962 + 1 / 2) / 2 ^ 52"
    by (rule real_less_lsqrt) (simp_all add: power2_eq_square)
  have one: "1 \<le> sqrt 3" by simp
  have two: "sqrt 3 < 2" by (rule real_less_lsqrt) simp_all
  have "round_double (sqrt 3) = Fin (of_int 7800463371553962 * pow2 (0 - 52))"
    using lo hi one two by (intro round_double_nearest) (simp_all add: pow2_def field_simps)
  then have root: "round_double (sqrt 3) = Fin s"
    by (simp add: s_def pow2_def)
  have "round_double (s * s) = Fin (of_int 6755399441055743 * pow2 (1 - 52))"
    by (intro round_double_nearest) (simp_all add: s_def pow2_def)
  then have denominator: "round_double (s * s) = Fin d"
    by (simp add: d_def pow2_def)
  have "round_double (3 / d) = Fin (of_int 4503599627370497 * pow2 (0 - 52))"
    by (intro round_double_nearest) (simp_all add: d_def pow2_def)
  then have quotient: "round_double (3 / d) = Fin (1 + 1 / 2 ^ 52)"
    by (simp add: pow2_def)
  have "d \<noteq> 0" by (simp add: d_def)
  then show ?thesis
    by (simp add: cosineSimilarity_def round_double_values root denominator quotient)
qed

text \<open>
  \<open>cosineSimilarity\<close> of \<open>[2 ^ 600]\<close> with itself: the products overflow to
  \<open>Infinity\<close>, and \<open>Infinity / Infinity\<close> is NaN.
\<close>

lemma cosineSimilarity_huge: "cosineSimilarity [huge] [huge] = Inr NaN"
proof -
  have "pow2 1024 \<le> huge * huge"
    by (simp add: pow2_def huge_def)
  then have "round_double (huge * huge) = PosInf"
    by (rule round_double_overflow)
  then show ?thesis
    by (simp add: cosineSimilarity_def)
qed

lemma cosine_sums_zeros:
  assumes "round_double a = Fin a" and "round_double b = Fin b" and "round_double c = Fin c"
  shows "cosine_sums (replicate n 0) (replicate n 0) (Fin a, Fin b, Fin c) = (Fin a, Fin b, Fin c)"
  by (induction n) (simp_all add: assms round_double_0)

lemma length_padded: "length (padded x y) = 384"
  by (simp add: padded_def)

lemma example_distance_padded:
  "example_distance (padded 0 1) (padded 1 0) = Fin 1"
  "example_distance (padded 1 0) (padded 1 0) = Fin 0"
  "example_distance (padded 0 1) (padded 0 0) = NaN"
  "example_distance (padded 1 0) (padded 0 0) = NaN"
  by (simp_all add: example_distance_def padded_def cosine_sums_zeros round_double_values)

subsection \<open>Sorting\<close>

lemma set_insert_before: "set (insert_before later x ys) = insert x (set ys)"
  by (induction ys) auto

lemma length_insert_before: "length (insert_before later x ys) = Suc (length ys)"
  by (induction ys) auto

lemma set_insertion_sort: "set (insertion_sort later xs) = set xs"
  by (induction xs) (simp_all add: insertion_sort_def set_insert_before)

lemma length_insertion_sort: "length (insertion_sort later xs) = length xs"
  by (induction xs) (simp_all add: insertion_sort_def length_insert_before)

lemma sorted_insert_before:
  assumes "sorted_wrt (\<lambda>a b. \<not> later a b) ys"
    and "\<And>y. y \<in> set ys \<Longrightarrow> later x y \<Longrightarrow> \<not> later y x"
    and "\<And>y z. y \<in> set ys \<Longrightarrow> z \<in> set ys \<Longrightarrow> \<not> later x y \<Longrightarrow> \<not> later y z \<Longrightarrow> \<not> later x z"
  shows "sorted_wrt (\<lambda>a b. \<not> later a b) (insert_before later x ys)"
  using assms
proof (induction ys)
  case Nil
  then show ?case by simp
next
  case (Cons y ys)
  from Cons.prems(1) have s: "sorted_wrt (\<lambda>a b. \<not> later a b) ys"
    and h: "\<forall>z \<in> set ys. \<not> later y z"
    by simp_all
  show ?case
  proof (cases "later x y")
    case True
    have "sorted_wrt (\<lambda>a b. \<not> later a b) (insert_before later x ys)"
    proof (rule Cons.IH [OF s])
      fix u assume "u \<in> set ys" and "later x u"
      then show "\<not> later u x" using Cons.prems(2) [of u] by simp
    next
      fix u z assume "u \<in> set ys" and "z \<in> set ys" and "\<not> later x u" and "\<not> later u z"
      then show "\<not> later x z" using Cons.prems(3) [of u z] by simp
    qed
    moreover have "\<not> later y x" using Cons.prems(2) [of y] True by simp
    ultimately show ?thesis using True h by (simp add: set_insert_before)
  next
    case False
    have "\<forall>z \<in> set ys. \<not> later x z"
    proof
      fix z assume z: "z \<in> set ys"
      with h have "\<not> later y z" by simp
      with Cons.prems(3) [of y z] False z show "\<not> later x z" by simp
    qed
    with False h s show ?thesis by simp
  qed
qed

lemma sorted_insertion_sort:
  assumes "\<And>x y. x \<in> set xs \<Longrightarrow> y \<in> set xs \<Longrightarrow> later x y \<Longrightarrow> \<not> later y x"
    and "\<And>x y z. x \<in> set xs \<Longrightarrow> y \<in> set xs \<Longrightarrow> z \<in> set xs \<Longrightarrow>
           \<not> later x y \<Longrightarrow> \<not> later y z \<Longrightarrow> \<not> later x z"
  shows "sorted_wrt (\<lambda>a b. \<not> later a b) (insertion_sort later xs)"
  using assms
proof (induction xs)
  case Nil
  show ?case by (simp add: insertion_sort_def)
next
  case (Cons x xs)
  have s: "sorted_wrt (\<lambda>a b. \<not> later a b) (insertion_sort later xs)"
  proof (rule Cons.IH)
    fix u v assume "u \<in> set xs" and "v \<in> set xs" and "later u v"
    then show "\<not> later v u" by (intro Cons.prems(1) [of u v]) simp_all
  next
    fix u v w
    assume "u \<in> set xs" and "v \<in> set xs" and "w \<in> set xs"
      and "\<not> later u v" and "\<not> later v w"
    then show "\<not> later u w" by (intro Cons.prems(2) [of u v w]) simp_all
  qed
  have "sorted_wrt (\<lambda>a b. \<not> later a b) (insert_before later x (insertion_sort later xs))"
  proof (rule sorted_insert_before [OF s])
    fix u assume "u \<in> set (insertion_sort later xs)" and "later x u"
    then show "\<not> later u x" by (intro Cons.prems(1) [of x u]) (simp_all add: set_insertion_sort)
  next
    fix u v
    assume "u \<in> set (insertion_sort later xs)" and "v \<in> set (insertion_sort later xs)"
      and "\<not> later x u" and "\<not> later u v"
    then show "\<not> later x v" by (intro Cons.prems(2) [of x u v]) (simp_all add: set_insertion_sort)
  qed
  then show ?case by (simp add: insertion_sort_def)
qed

lemma sorted_wrt_on_set:
  assumes "sorted_wrt P xs" and "\<And>x y. x \<in> set xs \<Longrightarrow> y \<in> set xs \<Longrightarrow> P x y \<Longrightarrow> Q x y"
  shows "sorted_wrt Q xs"
  by (rule sorted_wrt_mono_rel [of xs P Q, OF assms(2) assms(1)])

lemma number_less_asym: "number_less x y \<Longrightarrow> \<not> number_less y x"
  by (cases x; cases y) auto

lemma number_less_negtrans:
  "y \<noteq> NaN \<Longrightarrow> \<not> number_less x y \<Longrightarrow> \<not> number_less y z \<Longrightarrow> \<not> number_less x z"
  by (cases x; cases y; cases z) auto

lemma float8_less_asym: "float8_less x y \<Longrightarrow> \<not> float8_less y x"
  by (cases x; cases y) (auto simp add: float8_less_def)

lemma float8_less_negtrans:
  "\<not> float8_less x y \<Longrightarrow> \<not> float8_less y z \<Longrightarrow> \<not> float8_less x z"
  by (cases x; cases y; cases z) (auto simp add: float8_less_def)

lemma double_fl_div: "double (fl_div x y)"
  by (cases x; cases y) (simp_all add: double_round_double representable_0)

lemma cosineSimilarity_double:
  assumes "cosineSimilarity a b = Inr s"
  shows "double s"
proof -
  obtain dotProduct normA normB
    where sums: "cosine_sums a b (Fin 0, Fin 0, Fin 0) = (dotProduct, normA, normB)"
    by (cases "cosine_sums a b (Fin 0, Fin 0, Fin 0)") auto
  from assms have "s = Fin 0 \<or> s = fl_div dotProduct (fl_mul (fl_sqrt normA) (fl_sqrt normB))"
    unfolding cosineSimilarity_def sums by (simp add: Let_def split: if_splits)
  then show ?thesis
    by (auto simp add: double_fl_div representable_0)
qed

lemma score_all_double:
  "score_all q es = Inr scored \<Longrightarrow> r \<in> set scored \<Longrightarrow> double (similarity r)"
proof (induction es arbitrary: scored)
  case Nil
  then show ?case by simp
next
  case (Cons e es)
  from Cons.prems(1) obtain v s rest
    where s: "cosineSimilarity q v = Inr s" and rest: "score_all q es = Inr rest"
      and scored: "scored = \<lparr>sr_documentChunk = documentChunk e, similarity = s\<rparr> # rest"
    by (auto split: option.splits sum.splits)
  show ?case
  proof (cases "r \<in> set rest")
    case True
    then show ?thesis by (rule Cons.IH [OF rest])
  next
    case False
    with Cons.prems(2) scored have "similarity r = s" by simp
    with cosineSimilarity_double [OF s] show ?thesis by simp
  qed
qed

text \<open>
  The sort of \<open>search\<close> puts results whose similarities are doubles other than NaN in
  non-increasing order of similarity.
\<close>

lemma array_sort_descending:
  assumes "\<And>r. r \<in> set scored \<Longrightarrow> double (similarity r) \<and> similarity r \<noteq> NaN"
  shows "sorted_wrt (\<lambda>a b. number_le (similarity b) (similarity a))
           (array_sort (\<lambda>a b. fl_sub (similarity b) (similarity a)) scored)"
proof -
  let ?later = "\<lambda>x y. number_less (Fin 0) (fl_sub (similarity y) (similarity x))"
  have later: "?later x y \<longleftrightarrow> number_less (similarity x) (similarity y)"
    if "x \<in> set scored" "y \<in> set scored" for x y
    using assms [OF that(1)] assms [OF that(2)] by (intro fl_sub_positive) simp_all
  have "sorted_wrt (\<lambda>a b. \<not> ?later a b) (insertion_sort ?later scored)"
  proof (rule sorted_insertion_sort)
    fix x y assume "x \<in> set scored" "y \<in> set scored" "?later x y"
    then show "\<not> ?later y x" by (simp add: later number_less_asym)
  next
    fix x y z
    assume m: "x \<in> set scored" "y \<in> set scored" "z \<in> set scored"
      and "\<not> ?later x y" "\<not> ?later y z"
    then have "\<not> number_less (similarity x) (similarity y)"
      "\<not> number_less (similarity y) (similarity z)"
      by (simp_all add: later)
    with assms [OF m(2)] have "\<not> number_less (similarity x) (similarity z)"
      using number_less_negtrans [of "similarity y" "similarity x" "similarity z"] by simp
    with m show "\<not> ?later x z" by (simp add: later)
  qed
  then have "sorted_wrt (\<lambda>a b. number_le (similarity b) (similarity a)) (insertion_sort ?later scored)"
  proof (rule sorted_wrt_on_set)
    fix x y
    assume "x \<in> set (insertion_sort ?later scored)" "y \<in> set (insertion_sort ?later scored)"
      and n: "\<not> ?later x y"
    then have m: "x \<in> set scored" "y \<in> set scored" by (simp_all add: set_insertion_sort)
    with n have "\<not> number_less (similarity x) (similarity y)" by (simp add: later)
    with assms [OF m(1)] assms [OF m(2)]
    show "number_le (similarity y) (similarity x)" by (simp add: number_le_def)
  qed
  then show ?thesis by (simp add: array_sort_def)
qed

lemma set_slice: "set (slice xs i j) \<subseteq> set xs"
  unfolding slice_def by (meson set_take_subset set_drop_subset subset_trans)

lemma sorted_wrt_slice: "sorted_wrt R xs \<Longrightarrow> sorted_wrt R (slice xs i j)"
  unfolding slice_def by (simp add: sorted_wrt_take sorted_wrt_drop)

lemma length_slice_from_0: "0 \<le> k \<Longrightarrow> int (length (slice xs 0 k)) \<le> k"
  by (simp add: slice_def relative_index_def)

lemma fl_sub_NaN: "fl_sub (Fin 1) d = NaN \<longleftrightarrow> d = NaN"
  by (cases d) (simp_all add: round_double_not_NaN)

text \<open>
  The rows of the \<open>SELECT\<close>: at most \<open>topK\<close>, and in non-increasing order of
  similarity when no similarity among them is NaN.
\<close>

lemma select_similar_ranking:
  assumes "select_similar d q scope topK = Inr rows"
  shows "int (length rows) \<le> topK"
    and "list_all (\<lambda>r. snd r \<noteq> NaN) rows \<Longrightarrow> sorted_wrt (\<lambda>x y. number_le y x) (map snd rows)"
proof -
  let ?dist = "\<lambda>x. cosine_distance d (row_vector x) q"
  let ?matching = "filter (\<lambda>x. \<not> truthy scope \<or> Some (row_entity_id x) = scope)
                     (filter (scan_reaches d q) (embeddings_table d))"
  let ?ranked = "take (nat topK) (order_by ?dist ?matching)"
  from assms have nonneg: "0 \<le> topK"
    and rows: "rows = [] \<or> rows = map (\<lambda>x. (x, fl_sub (Fin 1) (?dist x))) ?ranked"
    by (auto simp add: select_similar_def Let_def split: if_splits)
  from rows nonneg show "int (length rows) \<le> topK"
    by auto
  show "sorted_wrt (\<lambda>x y. number_le y x) (map snd rows)" if n: "list_all (\<lambda>r. snd r \<noteq> NaN) rows"
  proof (cases "rows = []")
    case True
    then show ?thesis by simp
  next
    case False
    with rows have r: "rows = map (\<lambda>x. (x, fl_sub (Fin 1) (?dist x))) ?ranked" by simp
    from n have defined: "?dist x \<noteq> NaN" if "x \<in> set ?ranked" for x
      using that by (auto simp add: r list_all_iff fl_sub_NaN)
    have "sorted_wrt (\<lambda>a b. \<not> float8_less (?dist b) (?dist a)) (order_by ?dist ?matching)"
      unfolding order_by_def
    proof (rule sorted_insertion_sort [where later = "\<lambda>x y. float8_less (?dist y) (?dist x)"])
      fix x y assume "float8_less (?dist y) (?dist x)"
      then show "\<not> float8_less (?dist x) (?dist y)" by (rule float8_less_asym)
    next
      fix x y z
      assume "\<not> float8_less (?dist y) (?dist x)" and "\<not> float8_less (?dist z) (?dist y)"
      then show "\<not> float8_less (?dist z) (?dist x)"
        using float8_less_negtrans [of "?dist z" "?dist y" "?dist x"] by simp
    qed
    then have "sorted_wrt (\<lambda>a b. \<not> float8_less (?dist b) (?dist a)) ?ranked"
      by (rule sorted_wrt_take)
    then have "sorted_wrt (\<lambda>a b. number_le (fl_sub (Fin 1) (?dist b)) (fl_sub (Fin 1) (?dist a))) ?ranked"
    proof (rule sorted_wrt_on_set)
      fix x y
      assume "x \<in> set ?ranked" "y \<in> set ?ranked" and "\<not> float8_less (?dist y) (?dist x)"
      with defined [of x] defined [of y] have "number_le (?dist x) (?dist y)"
        by (simp add: float8_less_def number_le_def)
      then show "number_le (fl_sub (Fin 1) (?dist y)) (fl_sub (Fin 1) (?dist x))"
        by (rule fl_sub_antimono)
    qed
    then show ?thesis
      by (simp add: r sorted_wrt_map comp_def)
  qed
qed

lemma similarity_search_result: "map similarity (map search_result rows) = map snd rows"
  by (simp add: search_result_def comp_def)

subsection \<open>Ranking\<close>

text \<open>
  C1, as the spec states it, asks of every search at most \<open>topK\<close> results, sorted by
  similarity in non-increasing order, with every similarity in \<open>[-1, 1]\<close>. Four
  searches fail it. With three vectors in the in-memory store and \<open>topK = -1\<close>,
  \<open>slice(0, -1)\<close> drops the last of the three ranked results and \<open>search\<close> returns
  two. The similarity of \<open>[1, 1, 1]\<close> with itself, in double arithmetic, is
  \<open>1 + 2 ^ -52\<close>, which is 1.0000000000000002. With vectors whose component is
  \<open>2 ^ 600\<close> the products overflow and the similarities are NaN, which lies in no
  interval and is in no order. On the persistent store, a distance operator that is NaN
  on the zero vector, as pgvector's is, gives NaN similarities for the zero query vector.
\<close>

theorem search_counterexample:
  "map_sum id (map similarity) (mem_search [1, 0] (- 1) None three_vectors)
     = Inr [Fin 1, Fin 0]
   \<and> \<not> int (length [Fin 1, Fin 0]) \<le> - 1
   \<and> map_sum id (map similarity) (mem_search [1, 1, 1] 1 None ones_vector)
     = Inr [Fin (1 + 1 / 2 ^ 52)]
   \<and> \<not> number_le (Fin (1 + 1 / 2 ^ 52)) (Fin 1)
   \<and> map_sum id (map similarity) (mem_search [huge] 2 None huge_vectors) = Inr [NaN, NaN]
   \<and> map_sum id (map similarity) (search (padded 0 0) 2 None two_rows_store) = Inr [NaN, NaN]
   \<and> \<not> sorted_wrt (\<lambda>x y. number_le y x) [NaN, NaN]
   \<and> \<not> (number_le (Fin (- 1)) NaN \<and> number_le NaN (Fin 1))"
proof -
  have a: "map_sum id (map similarity) (mem_search [1, 0] (- 1) None three_vectors)
     = Inr [Fin 1, Fin 0]"
    by (simp add: mem_search_def vectorsToSearch_def truthy_def three_vectors_def
          mem_storeBatch_def mem_store_def cosineSimilarity_def slice_def relative_index_def
          array_sort_def insertion_sort_def round_double_values)
  have b: "map_sum id (map similarity) (mem_search [1, 1, 1] 1 None ones_vector)
     = Inr [Fin (1 + 1 / 2 ^ 52)]"
    by (simp add: mem_search_def vectorsToSearch_def truthy_def ones_vector_def
          mem_storeBatch_def mem_store_def cosineSimilarity_ones slice_def relative_index_def
          array_sort_def insertion_sort_def)
  have c: "map_sum id (map similarity) (mem_search [huge] 2 None huge_vectors) = Inr [NaN, NaN]"
    by (simp add: mem_search_def vectorsToSearch_def truthy_def huge_vectors_def
          mem_storeBatch_def mem_store_def cosineSimilarity_huge slice_def relative_index_def
          array_sort_def insertion_sort_def)
  have d: "map_sum id (map similarity) (search (padded 0 0) 2 None two_rows_store) = Inr [NaN, NaN]"
    by (simp add: search_def ensureInitialized_def pool_connect_def select_similar_def
          truthy_def two_rows_store_def sample_row_def example_distance_padded length_padded
          order_by_def insertion_sort_def float8_less_def search_result_def)
  from a b c d show ?thesis
    by (simp add: number_le_def)
qed

text \<open>
  C1, amended: for every query vector, every \<open>topK\<close> and all store contents, a search
  that returns, on either variant, returns at most \<open>topK\<close> results when \<open>topK\<close> is
  not negative (the persistent variant returns for no negative \<open>topK\<close>), and its
  results are in non-increasing order of similarity when no similarity is NaN: for the
  in-memory variant none of those computed for the vectors it searches, for the
  persistent variant none of those returned. The range of a similarity is not promised.
\<close>

theorem search_ranking:
  "(\<forall>results. mem_search queryVector topK scope vectors = Inr results \<longrightarrow>
        (0 \<le> topK \<longrightarrow> int (length results) \<le> topK)
      \<and> (list_all (\<lambda>r. similarity r \<noteq> NaN)
            (projr (score_all queryVector (vectorsToSearch scope vectors))) \<longrightarrow>
         sorted_wrt (\<lambda>x y. number_le y x) (map similarity results)))
   \<and> (\<forall>results. search queryVector topK scope this = Inr results \<longrightarrow>
        int (length results) \<le> topK
      \<and> (list_all (\<lambda>r. similarity r \<noteq> NaN) results \<longrightarrow>
         sorted_wrt (\<lambda>x y. number_le y x) (map similarity results)))"
proof -
  have mem: "(0 \<le> topK \<longrightarrow> int (length results) \<le> topK)
      \<and> (list_all (\<lambda>r. similarity r \<noteq> NaN)
            (projr (score_all queryVector (vectorsToSearch scope vectors))) \<longrightarrow>
         sorted_wrt (\<lambda>x y. number_le y x) (map similarity results))"
    if "mem_search queryVector topK scope vectors = Inr results" for results
  proof -
    let ?sorted = "\<lambda>scored. array_sort (\<lambda>a b. fl_sub (similarity b) (similarity a)) scored"
    from that obtain scored
      where scored: "score_all queryVector (vectorsToSearch scope vectors) = Inr scored"
        and results: "results = slice (?sorted scored) 0 topK"
      by (auto simp add: mem_search_def split: sum.splits)
    have l: "0 \<le> topK \<longrightarrow> int (length results) \<le> topK"
      by (simp add: results length_slice_from_0)
    have s: "sorted_wrt (\<lambda>x y. number_le y x) (map similarity results)"
      if "list_all (\<lambda>r. similarity r \<noteq> NaN)
            (projr (score_all queryVector (vectorsToSearch scope vectors)))"
    proof -
      from that have "\<And>r. r \<in> set scored \<Longrightarrow> similarity r \<noteq> NaN"
        by (simp add: scored list_all_iff)
      with score_all_double [OF scored]
      have "\<And>r. r \<in> set scored \<Longrightarrow> double (similarity r) \<and> similarity r \<noteq> NaN"
        by simp
      then have "sorted_wrt (\<lambda>a b. number_le (similarity b) (similarity a)) (?sorted scored)"
        by (rule array_sort_descending)
      then have "sorted_wrt (\<lambda>a b. number_le (similarity b) (similarity a)) results"
        unfolding results by (rule sorted_wrt_slice)
      then show ?thesis
        by (simp add: sorted_wrt_map)
    qed
    from l s show ?thesis by simp
  qed
  have pg: "int (length results) \<le> topK
      \<and> (list_all (\<lambda>r. similarity r \<noteq> NaN) results \<longrightarrow>
         sorted_wrt (\<lambda>x y. number_le y x) (map similarity results))"
    if "search queryVector topK scope this = Inr results" for results
  proof -
    from that obtain rows
      where rows: "select_similar (db this) queryVector scope topK = Inr rows"
        and results: "results = map search_result rows"
      by (auto simp add: search_def split: sum.splits)
    note ranking = select_similar_ranking [OF rows]
    have sim: "map similarity results = map snd rows"
      by (simp only: results similarity_search_result)
    have l: "int (length results) \<le> topK"
      using ranking(1) by (simp add: results)
    have s: "sorted_wrt (\<lambda>x y. number_le y x) (map similarity results)"
      if "list_all (\<lambda>r. similarity r \<noteq> NaN) results"
    proof -
      from that have "list_all (\<lambda>r. snd r \<noteq> NaN) rows"
        by (simp add: results list_all_iff search_result_def)
      from ranking(2) [OF this] show ?thesis
        by (simp only: sim)
    qed
    from l s show ?thesis by simp
  qed
  from mem pg show ?thesis
    by blast
qed

text \<open>
  The theorem at two searches that return: the three vectors with \<open>topK = 2\<close>, and the
  store of two rows, with the first row's vector as the query vector and \<open>topK = 1\<close>.
\<close>

theorem search_ranking_witness:
  "map_sum id (map similarity) (mem_search [1, 0] 2 None three_vectors) = Inr [Fin 1, Fin 0]
   \<and> map similarity (projr (score_all [1, 0] (vectorsToSearch None three_vectors)))
       = [Fin 0, Fin 1, Fin (- 1)]
   \<and> sorted_wrt (\<lambda>x y. number_le y x) [Fin 1, Fin 0]
   \<and> map_sum id (map similarity) (search (padded 1 0) 1 None two_rows_store) = Inr [Fin 1]"
proof -
  have m: "mem_search [1, 0] 2 None three_vectors
     = Inr [\<lparr>sr_documentChunk = unit_chunk ''b'', similarity = Fin 1\<rparr>,
            \<lparr>sr_documentChunk = unit_chunk ''a'', similarity = Fin 0\<rparr>]"
    by (simp add: mem_search_def vectorsToSearch_def truthy_def three_vectors_def
          mem_storeBatch_def mem_store_def cosineSimilarity_def slice_def relative_index_def
          array_sort_def insertion_sort_def round_double_values)
  have sc: "score_all [1, 0] (vectorsToSearch None three_vectors)
     = Inr [\<lparr>sr_documentChunk = unit_chunk ''a'', similarity = Fin 0\<rparr>,
            \<lparr>sr_documentChunk = unit_chunk ''b'', similarity = Fin 1\<rparr>,
            \<lparr>sr_documentChunk = unit_chunk ''c'', similarity = Fin (- 1)\<rparr>]"
    by (simp add: vectorsToSearch_def truthy_def three_vectors_def mem_storeBatch_def
          mem_store_def cosineSimilarity_def round_double_values)
  have p: "search (padded 1 0) 1 None two_rows_store
     = Inr [search_result (sample_row ''b'' (padded 1 0), Fin 1)]"
    by (simp add: search_def ensureInitialized_def pool_connect_def select_similar_def
          truthy_def two_rows_store_def sample_row_def example_distance_padded length_padded
          order_by_def insertion_sort_def float8_less_def round_double_values)
  from search_ranking [where queryVector = "[1, 0]" and topK = 2 and scope = None
      and vectors = three_vectors and this = two_rows_store]
  have "sorted_wrt (\<lambda>x y. number_le y x) (map similarity
          [\<lparr>sr_documentChunk = unit_chunk ''b'', similarity = Fin 1\<rparr>,
           \<lparr>sr_documentChunk = unit_chunk ''a'', similarity = Fin 0\<rparr>])"
    using m sc by simp
  moreover
  from search_ranking [where queryVector = "padded 1 0" and topK = 1 and scope = None
      and vectors = three_vectors and this = two_rows_store]
  have "int (length [search_result (sample_row ''b'' (padded 1 0), Fin 1)]) \<le> 1"
    using p by simp
  ultimately show ?thesis
    using m sc p by (simp add: search_result_def)
qed


section \<open>ConfigService\<close>

text \<open>
  The values the service reads from the application's configuration; \<open>None\<close> is a key
  that is not set. Numbers of the configuration are integers.
\<close>

record Config =
  askAi_defaultModel :: "string option"
  askAi_embeddingModel :: "string option"
  askAi_ollamaBaseUrl :: "string option"
  askAi_ragEnabled :: "bool option"
  askAi_rag_strategy :: "string option"
  askAi_defaultTopK :: "int option"
  askAi_chunkSize :: "int option"
  askAi_chunkOverlap :: "int option"
  askAi_vectorStore_type :: "string option"
  postgresql_host :: "string option"
  postgresql_port :: "int option"
  postgresql_database :: "string option"
  postgresql_user :: "string option"
  postgresql_password :: "string option"
  postgresql_ssl :: "bool option"
  postgresql_maxConnections :: "int option"
  postgresql_idleTimeoutMillis :: "int option"
  postgresql_connectionTimeoutMillis :: "int option"

record PostgresConfig =
  host :: string
  port :: int
  database_name :: string
  user :: string
  password :: string
  ssl :: bool
  maxConnections :: int
  idleTimeoutMillis :: int
  connectionTimeoutMillis :: int

record VectorStoreConfig =
  store_type :: string
  postgresql :: "PostgresConfig option"

record AskAiConfig =
  defaultModel :: string
  embeddingModel :: string
  ollamaBaseUrl :: string
  ragEnabled :: bool
  ragStrategy :: string
  defaultTopK :: int
  chunkSize :: int
  chunkOverlap :: int
  vectorStoreConfig :: VectorStoreConfig

text \<open>
  \<open>value || fallback\<close> on an optional string and on an optional number (an unset key,
  the empty string and 0 are falsy), and \<open>value ?? fallback\<close>.
\<close>

definition string_or :: "string option \<Rightarrow> string \<Rightarrow> string" where
  "string_or v fallback = (case v of None \<Rightarrow> fallback | Some x \<Rightarrow> if x = [] then fallback else x)"

definition number_or :: "int option \<Rightarrow> int \<Rightarrow> int" where
  "number_or v fallback = (case v of None \<Rightarrow> fallback | Some x \<Rightarrow> if x = 0 then fallback else x)"

definition nullish_or :: "'a option \<Rightarrow> 'a \<Rightarrow> 'a" where
  "nullish_or v fallback = (case v of None \<Rightarrow> fallback | Some x \<Rightarrow> x)"

definition loadPostgresConfig :: "Config \<Rightarrow> PostgresConfig result" where
  "loadPostgresConfig config =
     (if string_or (postgresql_password config) [] = []
      then Inl (Error ''PostgreSQL password is required when using postgresql vector store'')
      else Inr \<lparr>host = string_or (postgresql_host config) ''localhost'',
                port = number_or (postgresql_port config) 5432,
                database_name = string_or (postgresql_database config) ''backstage_vectors'',
                user = string_or (postgresql_user config) ''backstage'',
                password = string_or (postgresql_password config) [],
                ssl = nullish_or (postgresql_ssl config) False,
                maxConnections = number_or (postgresql_maxConnections config) 10,
                idleTimeoutMillis = number_or (postgresql_idleTimeoutMillis config) 30000,
                connectionTimeoutMillis = number_or (postgresql_connectionTimeoutMillis config) 5000\<rparr>)"

definition loadVectorStoreConfig :: "Config \<Rightarrow> VectorStoreConfig result" where
  "loadVectorStoreConfig config =
     (if askAi_vectorStore_type config = Some ''postgresql''
      then (case loadPostgresConfig config of
              Inl e \<Rightarrow> Inl e
            | Inr pg \<Rightarrow> Inr \<lparr>store_type = ''postgresql'', postgresql = Some pg\<rparr>)
      else Inr \<lparr>store_type = ''memory'', postgresql = None\<rparr>)"

definition loadConfig :: "Config \<Rightarrow> AskAiConfig result" where
  "loadConfig config =
     (case loadVectorStoreConfig config of
        Inl e \<Rightarrow> Inl e
      | Inr vs \<Rightarrow>
          Inr \<lparr>defaultModel = string_or (askAi_defaultModel config) ''llama3.2'',
               embeddingModel = string_or (askAi_embeddingModel config) ''all-minilm'',
               ollamaBaseUrl = string_or (askAi_ollamaBaseUrl config) ''http://localhost:11434'',
               ragEnabled = nullish_or (askAi_ragEnabled config) True,
               ragStrategy = string_or (askAi_rag_strategy config) ''simple'',
               defaultTopK = number_or (askAi_defaultTopK config) 5,
               chunkSize = number_or (askAi_chunkSize config) 512,
               chunkOverlap = number_or (askAi_chunkOverlap config) 50,
               vectorStoreConfig = vs\<rparr>)"

section \<open>DocumentProcessor\<close>

text \<open>
  Strings are lists of characters; the white space \<open>\s\<close> of a regular expression is
  modelled on the ASCII characters: tab, line feed, vertical tab, form feed, carriage
  return and space.
\<close>

definition is_space :: "char \<Rightarrow> bool" where
  "is_space c \<longleftrightarrow> c \<in> set [CHR 0x09, CHR 0x0A, CHR 0x0B, CHR 0x0C, CHR 0x0D, CHR '' '']"

definition trim :: "string \<Rightarrow> string" where
  "trim s = rev (dropWhile is_space (rev (dropWhile is_space s)))"

text \<open>\<open>text.replace(/\s+/g, ' ')\<close>: every maximal run of white space becomes one space.\<close>

function collapse_spaces :: "string \<Rightarrow> string" where
  "collapse_spaces [] = []"
| "collapse_spaces (c # cs) =
     (if is_space c then CHR '' '' # collapse_spaces (dropWhile is_space cs)
      else c # collapse_spaces cs)"
  by pat_completeness auto
termination
  by (relation "measure length") (simp_all add: length_dropWhile_le le_imp_less_Suc)

text \<open>
  \<open>text.split(/\s+/)\<close>: the pieces between the maximal runs of white space; a string
  that starts or ends with white space gives an empty first or last piece.
\<close>

function split_spaces :: "string \<Rightarrow> string list" where
  "split_spaces s =
     (case dropWhile (\<lambda>c. \<not> is_space c) s of
        [] \<Rightarrow> [s]
      | c # rest \<Rightarrow> takeWhile (\<lambda>c. \<not> is_space c) s # split_spaces (dropWhile is_space rest))"
  by pat_completeness auto
termination
proof (relation "measure length")
  show "wf (measure length)"
    by simp
next
  fix s :: string and c rest
  assume "dropWhile (\<lambda>c. \<not> is_space c) s = c # rest"
  then have "Suc (length rest) \<le> length s"
    using length_dropWhile_le [of "\<lambda>c. \<not> is_space c" s] by simp
  moreover have "length (dropWhile is_space rest) \<le> length rest"
    by (rule length_dropWhile_le)
  ultimately show "(dropWhile is_space rest, s) \<in> measure length"
    by simp
qed

declare split_spaces.simps [simp del]

text \<open>\<open>words.join(' ')\<close>.\<close>

fun join_spaces :: "string list \<Rightarrow> string" where
  "join_spaces [] = []"
| "join_spaces [w] = w"
| "join_spaces (w # w' # ws) = w @ CHR '' '' # join_spaces (w' # ws)"

text \<open>
  \<open>extractText\<close> applies seven replacements that remove markup (HTML tags, Markdown
  links, headers, code blocks, inline code, emphasis characters, URLs), then collapses
  white space and trims. The seven replacements together are the parameter \<open>strip\<close>:
  what follows holds for whatever they do to the text.
\<close>

definition extractText :: "(string \<Rightarrow> string) \<Rightarrow> string \<Rightarrow> string" where
  "extractText strip text = trim (collapse_spaces (strip text))"

definition new_chunk :: "string \<Rightarrow> string \<Rightarrow> string \<Rightarrow> nat \<Rightarrow> string list \<Rightarrow> DocumentChunk" where
  "new_chunk eid ename src index chunkWords =
     \<lparr>dc_id = eid @ ''-'' @ src @ ''-'' @ show_nat index, entityId = eid, entityName = ename,
      content = join_spaces chunkWords,
      metadata = \<lparr>source = src, chunkIndex = index, totalChunks = 0\<rparr>\<rparr>"

text \<open>
  The \<open>while\<close> loop of \<open>chunkDocument\<close>, on its variables \<open>currentIndex\<close>,
  \<open>chunkIndex\<close> and \<open>chunks\<close>. The result \<open>None\<close> is a loop that never ends.
\<close>

partial_function (option) chunk_loop ::
    "AskAiConfig \<Rightarrow> string \<times> string \<times> string \<Rightarrow> string list \<Rightarrow> int \<Rightarrow> nat \<Rightarrow> DocumentChunk list
     \<Rightarrow> DocumentChunk list option" where
  "chunk_loop config job ws currentIndex index chunks =
     (if currentIndex < int (length ws)
      then (if trim (join_spaces (slice ws currentIndex (currentIndex + chunkSize config))) \<noteq> []
            then chunk_loop config job ws (currentIndex + (chunkSize config - chunkOverlap config))
                   (Suc index)
                   (chunks @ [new_chunk (fst job) (fst (snd job)) (snd (snd job)) index
                                (slice ws currentIndex (currentIndex + chunkSize config))])
            else chunk_loop config job ws (currentIndex + (chunkSize config - chunkOverlap config))
                   index chunks)
      else Some chunks)"

declare chunk_loop.simps [code]

definition chunkDocument ::
    "(string \<Rightarrow> string) \<Rightarrow> AskAiConfig \<Rightarrow> string \<Rightarrow> string \<Rightarrow> string \<Rightarrow> string
     \<Rightarrow> DocumentChunk list option" where
  "chunkDocument strip config text eid ename src =
     (if trim (extractText strip text) = [] then Some []
      else (case chunk_loop config (eid, ename, src) (split_spaces (extractText strip text)) 0 0 [] of
              None \<Rightarrow> None
            | Some chunks \<Rightarrow>
                Some (map (\<lambda>chunk. chunk\<lparr>metadata := (metadata chunk)\<lparr>totalChunks := length chunks\<rparr>\<rparr>)
                          chunks)))"

text \<open>The words of a chunk, read back from its content.\<close>

definition chunk_words :: "DocumentChunk \<Rightarrow> string list" where
  "chunk_words chunk = split_spaces (content chunk)"


subsection \<open>Words\<close>

text \<open>A word, as the chunker needs it: not empty and free of white space.\<close>

definition word_ok :: "string \<Rightarrow> bool" where
  "word_ok w \<longleftrightarrow> w \<noteq> [] \<and> list_all (\<lambda>c. \<not> is_space c) w"


lemma dropWhile_all: "list_all P xs \<Longrightarrow> dropWhile P xs = []"
  by (induction xs) auto

lemma takeWhile_all: "list_all P xs \<Longrightarrow> takeWhile P xs = xs"
  by (induction xs) auto

lemma trim_eq_Nil: "trim s = [] \<longleftrightarrow> list_all is_space s"
proof
  assume "list_all is_space s"
  then have "dropWhile is_space s = []"
    by (rule dropWhile_all)
  then show "trim s = []"
    by (simp only: trim_def rev.simps dropWhile.simps)
next
  assume e: "trim s = []"
  show "list_all is_space s"
  proof (rule ccontr)
    assume "\<not> list_all is_space s"
    then have t: "dropWhile is_space s \<noteq> []"
      by (simp add: list_all_iff)
    then have "\<not> is_space (hd (dropWhile is_space s))"
      by (rule hd_dropWhile)
    moreover have "hd (dropWhile is_space s) \<in> set (rev (dropWhile is_space s))"
      using t by simp
    ultimately have "dropWhile is_space (rev (dropWhile is_space s)) \<noteq> []"
      by (auto simp: dropWhile_eq_Nil_conv)
    with e show False
      by (simp add: trim_def)
  qed
qed

lemma last_dropWhile: "dropWhile P xs \<noteq> [] \<Longrightarrow> last (dropWhile P xs) = last xs"
  by (induction xs) (auto split: if_splits)

lemma trim_ends:
  assumes "trim s \<noteq> []"
  shows "\<not> is_space (hd (trim s))" "\<not> is_space (last (trim s))"
proof -
  let ?t = "dropWhile is_space s"
  let ?u = "dropWhile is_space (rev ?t)"
  from assms have u: "?u \<noteq> []"
    by (simp add: trim_def)
  have t: "?t \<noteq> []"
  proof
    assume "?t = []"
    then have "?u = []"
      by (simp only: rev.simps dropWhile.simps)
    with u show False ..
  qed
  have "hd (trim s) = last ?u"
    using u by (simp add: trim_def hd_rev)
  also have "\<dots> = last (rev ?t)"
    using u by (rule last_dropWhile)
  also have "\<dots> = hd ?t"
    using t by (simp add: last_rev)
  finally show "\<not> is_space (hd (trim s))"
    using t hd_dropWhile [of is_space s] by simp
  have "last (trim s) = hd ?u"
    using u by (simp add: trim_def last_rev)
  then show "\<not> is_space (last (trim s))"
    using u hd_dropWhile [of is_space "rev ?t"] by simp
qed

lemma join_spaces_Cons:
  "ws \<noteq> [] \<Longrightarrow> join_spaces (w # ws) = w @ CHR '' '' # join_spaces ws"
  by (cases ws) simp_all

lemma is_space_space: "is_space CHR '' ''"
  by (simp add: is_space_def)

lemma hd_join_spaces:
  "ws \<noteq> [] \<Longrightarrow> list_all word_ok ws \<Longrightarrow>
   join_spaces ws \<noteq> [] \<and> \<not> is_space (hd (join_spaces ws))"
  by (cases ws rule: join_spaces.cases) (auto simp: word_ok_def neq_Nil_conv)

lemma split_spaces_join:
  "ws \<noteq> [] \<Longrightarrow> list_all word_ok ws \<Longrightarrow> split_spaces (join_spaces ws) = ws"
proof (induction ws rule: join_spaces.induct)
  case 1
  then show ?case by simp
next
  case (2 w)
  then have "dropWhile (\<lambda>c. \<not> is_space c) w = []"
    by (simp add: word_ok_def dropWhile_all)
  then show ?case
    by (subst split_spaces.simps) (simp only: join_spaces.simps list.case)
next
  case (3 w w' ws)
  let ?rest = "join_spaces (w' # ws)"
  from "3.prems" have "word_ok w" and ok: "list_all word_ok (w' # ws)"
    by simp_all
  then have w: "list_all (\<lambda>c. \<not> is_space c) w"
    by (simp add: word_ok_def)
  have d: "dropWhile (\<lambda>c. \<not> is_space c) (w @ CHR '' '' # ?rest) = CHR '' '' # ?rest"
    using w by (simp add: dropWhile_append2 list_all_iff is_space_space)
  have t: "takeWhile (\<lambda>c. \<not> is_space c) (w @ CHR '' '' # ?rest) = w"
    using w by (simp add: takeWhile_append2 list_all_iff is_space_space)
  from hd_join_spaces [OF _ ok] have "?rest \<noteq> []" "\<not> is_space (hd ?rest)"
    by simp_all
  then have r: "dropWhile is_space ?rest = ?rest"
    by (cases ?rest) simp_all
  have j: "join_spaces (w # w' # ws) = w @ CHR '' '' # ?rest"
    by simp
  have "split_spaces (join_spaces (w # w' # ws)) = w # split_spaces ?rest"
    by (subst split_spaces.simps) (simp only: j d t r list.case)
  with "3.IH" ok show ?case
    by simp
qed

lemma split_spaces_words:
  "s \<noteq> [] \<Longrightarrow> \<not> is_space (hd s) \<Longrightarrow> \<not> is_space (last s) \<Longrightarrow>
   list_all word_ok (split_spaces s)"
proof (induction s rule: split_spaces.induct)
  case (1 s)
  show ?case
  proof (cases "dropWhile (\<lambda>c. \<not> is_space c) s")
    case Nil
    then have "list_all (\<lambda>c. \<not> is_space c) s"
      by (simp add: list_all_iff)
    with "1.prems" have "list_all word_ok [s]"
      by (simp add: word_ok_def)
    then show ?thesis
      by (subst split_spaces.simps) (simp only: Nil list.case)
  next
    case (Cons c rest)
    let ?w = "takeWhile (\<lambda>c. \<not> is_space c) s"
    let ?s' = "dropWhile is_space rest"
    have s: "s = ?w @ c # rest"
      using Cons takeWhile_dropWhile_id [of "\<lambda>c. \<not> is_space c" s] by simp
    have c: "is_space c"
      using Cons hd_dropWhile [of "\<lambda>c. \<not> is_space c" s] by auto
    have w: "word_ok ?w"
    proof -
      from "1.prems" have "?w \<noteq> []"
        by (cases s) simp_all
      moreover have "list_all (\<lambda>c. \<not> is_space c) ?w"
        by (auto simp: list_all_iff dest: set_takeWhileD)
      ultimately show ?thesis
        by (simp add: word_ok_def)
    qed
    have rest: "rest \<noteq> []"
    proof
      assume "rest = []"
      with s have "last s = c"
        by (metis last_snoc)
      with c "1.prems" show False by simp
    qed
    have "last s = last (?w @ c # rest)"
      by (rule arg_cong [OF s])
    with rest have last_rest: "last rest = last s"
      by simp
    have s': "?s' \<noteq> []"
    proof
      assume "?s' = []"
      then have "\<forall>x \<in> set rest. is_space x"
        by (simp add: dropWhile_eq_Nil_conv)
      with rest have "is_space (last rest)"
        by simp
      with last_rest "1.prems" show False by simp
    qed
    have hd': "\<not> is_space (hd ?s')"
      using s' hd_dropWhile [of is_space rest] by simp
    have last': "\<not> is_space (last ?s')"
      using s' last_rest "1.prems" by (simp add: last_dropWhile)
    from "1.IH" [OF Cons s' hd' last'] w
    have "list_all word_ok (?w # split_spaces ?s')"
      by simp
    then show ?thesis
      by (subst split_spaces.simps) (simp only: Cons list.case)
  qed
qed


subsection \<open>The chunks as windows\<close>

text \<open>
  The windows of \<open>w\<close> elements that start at \<open>c\<close>, \<open>c + d\<close>, \<open>c + 2d\<close>, ... while
  the start is inside the list, and the chunks numbered from \<open>index\<close> that are made of a
  list of windows. For a positive stride the loop computes exactly these.
\<close>

function windows :: "nat \<Rightarrow> nat \<Rightarrow> 'a list \<Rightarrow> nat \<Rightarrow> 'a list list" where
  "windows w d xs c =
     (if c < length xs \<and> 0 < d then take w (drop c xs) # windows w d xs (c + d) else [])"
  by pat_completeness auto
termination
  by (relation "measure (\<lambda>(w, d, xs, c). length xs - c)") auto

declare windows.simps [simp del]

fun chunks_from :: "string \<times> string \<times> string \<Rightarrow> nat \<Rightarrow> string list list \<Rightarrow> DocumentChunk list" where
  "chunks_from job index [] = []"
| "chunks_from job index (chunkWords # rest) =
     new_chunk (fst job) (fst (snd job)) (snd (snd job)) index chunkWords
       # chunks_from job (Suc index) rest"

lemma length_chunks_from: "length (chunks_from job index wss) = length wss"
  by (induction wss arbitrary: index) simp_all

lemma chunks_from_nth:
  "i < length wss \<Longrightarrow>
   chunks_from job index wss ! i
     = new_chunk (fst job) (fst (snd job)) (snd (snd job)) (index + i) (wss ! i)"
proof (induction wss arbitrary: index i)
  case Nil
  then show ?case by simp
next
  case (Cons a wss)
  then show ?case by (cases i) simp_all
qed

lemma windows_nth:
  "i < length (windows w d xs c) \<Longrightarrow>
   windows w d xs c ! i = take w (drop (c + i * d) xs) \<and> c + i * d < length xs"
proof (induction w d xs c arbitrary: i rule: windows.induct)
  case (1 w d xs c)
  show ?case
  proof (cases "c < length xs \<and> 0 < d")
    case False
    with "1.prems" show ?thesis
      by (simp add: windows.simps)
  next
    case True
    then have unfold: "windows w d xs c = take w (drop c xs) # windows w d xs (c + d)"
      by (subst windows.simps) simp
    show ?thesis
    proof (cases i)
      case 0
      with True unfold show ?thesis by simp
    next
      case (Suc j)
      with "1.prems" unfold have "j < length (windows w d xs (c + d))"
        by simp
      from "1.IH" [OF True this] Suc unfold show ?thesis
        by (simp add: algebra_simps)
    qed
  qed
qed

lemma slice_window:
  "0 \<le> c \<Longrightarrow> 0 \<le> w \<Longrightarrow> slice xs c (c + w) = take (nat w) (drop (nat c) xs)"
  by (auto simp: slice_def relative_index_def min_def nat_add_distrib)

lemma window_not_blank:
  assumes "list_all word_ok ws" "c < length ws" "0 < w"
  shows "trim (join_spaces (take w (drop c ws))) \<noteq> []"
    and "split_spaces (join_spaces (take w (drop c ws))) = take w (drop c ws)"
proof -
  let ?win = "take w (drop c ws)"
  from assms have ne: "?win \<noteq> []"
    by simp
  have "set ?win \<subseteq> set ws"
    by (meson set_take_subset set_drop_subset subset_trans)
  with assms(1) have ok: "list_all word_ok ?win"
    by (auto simp: list_all_iff)
  from hd_join_spaces [OF ne ok]
  have "join_spaces ?win \<noteq> []" "\<not> is_space (hd (join_spaces ?win))"
    by simp_all
  then have "\<not> list_all is_space (join_spaces ?win)"
    by (cases "join_spaces ?win") simp_all
  then show "trim (join_spaces ?win) \<noteq> []"
    by (simp add: trim_eq_Nil)
  show "split_spaces (join_spaces ?win) = ?win"
    using ne ok by (rule split_spaces_join)
qed

lemma chunk_loop_windows:
  assumes ok: "list_all word_ok ws"
    and size: "0 < chunkSize config"
    and stride: "0 < chunkSize config - chunkOverlap config"
  shows "0 \<le> c \<Longrightarrow>
         chunk_loop config job ws c index chunks
           = Some (chunks @ chunks_from job index
                     (windows (nat (chunkSize config)) (nat (chunkSize config - chunkOverlap config))
                        ws (nat c)))"
proof (induction "length ws - nat c" arbitrary: c index chunks rule: less_induct)
  case less
  let ?w = "nat (chunkSize config)"
  let ?d = "nat (chunkSize config - chunkOverlap config)"
  show ?case
  proof (cases "c < int (length ws)")
    case False
    with less.prems have "\<not> nat c < length ws"
      by simp
    then have "windows ?w ?d ws (nat c) = []"
      by (subst windows.simps) simp
    with False show ?thesis
      by (subst chunk_loop.simps) simp
  next
    case True
    with less.prems have c: "nat c < length ws"
      by simp
    have win: "slice ws c (c + chunkSize config) = take ?w (drop (nat c) ws)"
      using less.prems size by (simp add: slice_window)
    have nb: "trim (join_spaces (take ?w (drop (nat c) ws))) \<noteq> []"
      using ok c size by (intro window_not_blank) simp_all
    have next_c: "nat (c + (chunkSize config - chunkOverlap config)) = nat c + ?d"
      using less.prems stride by (simp add: nat_add_distrib)
    have unfold: "windows ?w ?d ws (nat c) = take ?w (drop (nat c) ws) # windows ?w ?d ws (nat c + ?d)"
      using c stride by (subst windows.simps) simp
    have smaller: "length ws - nat (c + (chunkSize config - chunkOverlap config)) < length ws - nat c"
      using c stride next_c by simp
    have nonneg: "0 \<le> c + (chunkSize config - chunkOverlap config)"
      using less.prems stride by simp
    note IH = less.hyps [OF smaller nonneg]
    show ?thesis
      by (subst chunk_loop.simps) (simp add: True win nb IH next_c unfold)
  qed
qed

lemma chunk_loop_diverges:
  assumes "chunk_loop config job ws c index chunks = Some y"
  shows "\<not> (chunkSize config - chunkOverlap config \<le> 0 \<and> c < int (length ws))"
proof (rule chunk_loop.raw_induct
    [where P = "\<lambda>config job ws c index chunks y.
                  \<not> (chunkSize config - chunkOverlap config \<le> 0 \<and> c < int (length ws))",
     OF _ assms])
  fix f :: "AskAiConfig \<Rightarrow> string \<times> string \<times> string \<Rightarrow> string list \<Rightarrow> int \<Rightarrow> nat
            \<Rightarrow> DocumentChunk list \<Rightarrow> DocumentChunk list option"
  fix config job ws currentIndex index chunks y
  assume IH: "\<And>config job ws c index chunks y.
                f config job ws c index chunks = Some y \<Longrightarrow>
                \<not> (chunkSize config - chunkOverlap config \<le> 0 \<and> c < int (length ws))"
  assume body:
    "(if currentIndex < int (length ws)
      then (if trim (join_spaces (slice ws currentIndex (currentIndex + chunkSize config))) \<noteq> []
            then f config job ws (currentIndex + (chunkSize config - chunkOverlap config))
                   (Suc index)
                   (chunks @ [new_chunk (fst job) (fst (snd job)) (snd (snd job)) index
                                (slice ws currentIndex (currentIndex + chunkSize config))])
            else f config job ws (currentIndex + (chunkSize config - chunkOverlap config))
                   index chunks)
      else Some chunks) = Some y"
  show "\<not> (chunkSize config - chunkOverlap config \<le> 0 \<and> currentIndex < int (length ws))"
  proof
    assume a: "chunkSize config - chunkOverlap config \<le> 0 \<and> currentIndex < int (length ws)"
    then have next_c: "currentIndex + (chunkSize config - chunkOverlap config) < int (length ws)"
      by simp
    from body a obtain index' chunks'
      where "f config job ws (currentIndex + (chunkSize config - chunkOverlap config))
               index' chunks' = Some y"
      by (auto split: if_splits)
    from IH [OF this] a next_c show False
      by simp
  qed
qed

lemma windows_overlap:
  assumes "o' < w" "Suc i < length (windows w (w - o') xs c)"
  shows "take o' (windows w (w - o') xs c ! Suc i) = drop (w - o') (windows w (w - o') xs c ! i)"
proof -
  from assms(2) have i: "i < length (windows w (w - o') xs c)"
    by simp
  from windows_nth [OF assms(2)] windows_nth [OF i] assms(1) show ?thesis
    by (simp add: drop_take min_def add.commute add.left_commute)
qed


lemma trim_Nil: "trim [] = []"
  by (simp add: trim_def)

lemma extractText_words:
  assumes "trim (extractText strip text) \<noteq> []"
  shows "list_all word_ok (split_spaces (extractText strip text))"
proof -
  let ?x = "collapse_spaces (strip text)"
  have ne: "trim ?x \<noteq> []"
  proof
    assume "trim ?x = []"
    then have "trim (extractText strip text) = []"
      by (simp only: extractText_def trim_Nil)
    with assms show False ..
  qed
  from trim_ends [OF ne] ne show ?thesis
    by (simp add: extractText_def split_spaces_words)
qed

lemma chunkDocument_windows:
  assumes "0 < chunkSize config" "0 < chunkSize config - chunkOverlap config"
    and "trim (extractText strip text) \<noteq> []"
  defines "wins \<equiv> windows (nat (chunkSize config)) (nat (chunkSize config - chunkOverlap config))
                    (split_spaces (extractText strip text)) 0"
  shows "\<exists>chunks. chunkDocument strip config text eid ename src = Some chunks
           \<and> map chunk_words chunks = wins"
proof -
  let ?ws = "split_spaces (extractText strip text)"
  let ?raw = "chunks_from (eid, ename, src) 0 wins"
  let ?chunks = "map (\<lambda>chunk. chunk\<lparr>metadata := (metadata chunk)\<lparr>totalChunks := length ?raw\<rparr>\<rparr>)
                     ?raw"
  have ok: "list_all word_ok ?ws"
    using assms(3) by (rule extractText_words)
  from chunk_loop_windows [OF ok assms(1) assms(2), of 0 "(eid, ename, src)" 0 "[]"]
  have loop: "chunk_loop config (eid, ename, src) ?ws 0 0 [] = Some ?raw"
    by (simp add: wins_def)
  then have res: "chunkDocument strip config text eid ename src = Some ?chunks"
    using assms(3) by (simp add: chunkDocument_def)
  have "map chunk_words ?chunks = wins"
  proof (rule nth_equalityI)
    show "length (map chunk_words ?chunks) = length wins"
      by (simp add: length_chunks_from)
  next
    fix i
    assume "i < length (map chunk_words ?chunks)"
    then have i: "i < length wins"
      by (simp add: length_chunks_from)
    from windows_nth [OF i [unfolded wins_def]]
    have w: "wins ! i = take (nat (chunkSize config))
                          (drop (i * nat (chunkSize config - chunkOverlap config)) ?ws)"
      and inside: "i * nat (chunkSize config - chunkOverlap config) < length ?ws"
      by (simp_all add: wins_def)
    have "chunk_words (?chunks ! i) = split_spaces (join_spaces (wins ! i))"
      using i by (simp add: length_chunks_from chunks_from_nth chunk_words_def new_chunk_def)
    also have "\<dots> = wins ! i"
      unfolding w using ok inside assms(1) by (intro window_not_blank) simp_all
    finally show "map chunk_words ?chunks ! i = wins ! i"
      using i by (simp add: length_chunks_from)
  qed
  with res show ?thesis
    by blast
qed

text \<open>
  C7, amended: for every input text and every configuration with
  \<open>0 \<le> O < W\<close>, \<open>chunkDocument\<close> returns, and for all consecutive chunks \<open>i\<close>,
  \<open>i + 1\<close> the leading \<open>O\<close> words of chunk \<open>i + 1\<close> are the words of chunk \<open>i\<close>
  from position \<open>W - O\<close> on; these are the trailing \<open>O\<close> words of chunk \<open>i\<close>
  whenever chunk \<open>i\<close> is a full window of \<open>W\<close> words.
\<close>

theorem chunkDocument_overlap:
  assumes "0 \<le> chunkOverlap config" "chunkOverlap config < chunkSize config"
  shows "\<exists>chunks. chunkDocument strip config text eid ename src = Some chunks
           \<and> (\<forall>i. Suc i < length chunks \<longrightarrow>
                  take (nat (chunkOverlap config)) (chunk_words (chunks ! Suc i))
                    = drop (nat (chunkSize config - chunkOverlap config)) (chunk_words (chunks ! i))
                \<and> (length (chunk_words (chunks ! i)) = nat (chunkSize config) \<longrightarrow>
                     take (nat (chunkOverlap config)) (chunk_words (chunks ! Suc i))
                       = drop (length (chunk_words (chunks ! i)) - nat (chunkOverlap config))
                           (chunk_words (chunks ! i))))"
proof (cases "trim (extractText strip text) = []")
  case True
  then show ?thesis
    by (simp add: chunkDocument_def)
next
  case False
  let ?w = "nat (chunkSize config)"
  let ?o = "nat (chunkOverlap config)"
  let ?wins = "windows ?w (?w - ?o) (split_spaces (extractText strip text)) 0"
  from assms have size: "0 < chunkSize config" and stride: "0 < chunkSize config - chunkOverlap config"
    by simp_all
  have d: "nat (chunkSize config - chunkOverlap config) = ?w - ?o"
    using assms by (simp add: nat_diff_distrib)
  from chunkDocument_windows [OF size stride False, of eid ename src]
  obtain chunks where res: "chunkDocument strip config text eid ename src = Some chunks"
    and words: "map chunk_words chunks = ?wins"
    by (auto simp: d)
  have "take ?o (chunk_words (chunks ! Suc i)) = drop (?w - ?o) (chunk_words (chunks ! i))"
    if "Suc i < length chunks" for i
  proof -
    from that words have len: "Suc i < length ?wins"
      by (metis length_map)
    have "?o < ?w"
      using assms by simp
    from windows_overlap [OF this len]
    have "take ?o (?wins ! Suc i) = drop (?w - ?o) (?wins ! i)" .
    moreover have "?wins ! Suc i = chunk_words (chunks ! Suc i)" "?wins ! i = chunk_words (chunks ! i)"
      using that words [symmetric] by simp_all
    ultimately show ?thesis
      by simp
  qed
  with res d show ?thesis
    by auto
qed

text \<open>
  C8 fails on the code. \<open>loadConfig\<close> throws for nothing but a missing PostgreSQL
  password: whenever the vector store's configuration loads, the configuration is
  accepted with the chunk size and overlap it gives, whatever they are; and with a stride
  \<open>W - O \<le> 0\<close>, \<open>chunkDocument\<close> never returns on a text that has a word left after
  \<open>extractText\<close>.
\<close>

theorem chunkDocument_never_returns:
  assumes "loadVectorStoreConfig c = Inr vs"
  shows "\<exists>config. loadConfig c = Inr config
           \<and> chunkSize config = number_or (askAi_chunkSize c) 512
           \<and> chunkOverlap config = number_or (askAi_chunkOverlap c) 50
           \<and> (chunkSize config \<le> chunkOverlap config \<and> trim (extractText strip text) \<noteq> [] \<longrightarrow>
                chunkDocument strip config text eid ename src = None)"
proof -
  have diverges: "chunkDocument strip config text eid ename src = None"
    if "chunkSize config \<le> chunkOverlap config" "trim (extractText strip text) \<noteq> []" for config
  proof -
    let ?ws = "split_spaces (extractText strip text)"
    have "?ws \<noteq> []"
      by (subst split_spaces.simps) (simp split: list.splits)
    then have "(0::int) < int (length ?ws)"
      by simp
    with that(1) chunk_loop_diverges [of config "(eid, ename, src)" ?ws 0 0 "[]"]
    have "chunk_loop config (eid, ename, src) ?ws 0 0 [] = None"
      by (cases "chunk_loop config (eid, ename, src) ?ws 0 0 []") auto
    with that(2) show ?thesis
      by (simp add: chunkDocument_def)
  qed
  from assms diverges show ?thesis
    by (simp add: loadConfig_def)
qed

text \<open>A configuration with \<open>W = 4\<close> and \<open>O = 2\<close>.\<close>

definition window_4_2 :: AskAiConfig where
  "window_4_2 =
     \<lparr>defaultModel = ''llama3.2'', embeddingModel = ''all-minilm'',
      ollamaBaseUrl = ''http://localhost:11434'', ragEnabled = True, ragStrategy = ''simple'',
      defaultTopK = 5, chunkSize = 4, chunkOverlap = 2,
      vectorStoreConfig = \<lparr>store_type = ''memory'', postgresql = None\<rparr>\<rparr>"

text \<open>
  C7, as the spec states it, fails at the end of a text. With \<open>W = 4\<close>, \<open>O = 2\<close>
  and the five words \<open>a b c d e\<close> the chunks are \<open>a b c d\<close>, \<open>c d e\<close> and
  \<open>e\<close>: the trailing two words of the second chunk are \<open>d e\<close>, the leading two
  words of the third are \<open>e\<close> alone.
\<close>

theorem chunkDocument_tail_counterexample:
  "map_option (map chunk_words)
     (chunkDocument id window_4_2 ''a b c d e'' ''component:default/x'' ''x'' ''catalog'')
     = Some [[''a'', ''b'', ''c'', ''d''], [''c'', ''d'', ''e''], [''e'']]
   \<and> drop (length [''c'', ''d'', ''e''] - 2) [''c'', ''d'', ''e''] \<noteq> take 2 [''e'']"
  by code_simp

theorem chunkDocument_overlap_witness:
  "0 \<le> chunkOverlap window_4_2 \<and> chunkOverlap window_4_2 < chunkSize window_4_2
   \<and> map_option (map chunk_words)
         (chunkDocument id window_4_2 ''a b c d e'' ''component:default/x'' ''x'' ''catalog'')
       = Some [[''a'', ''b'', ''c'', ''d''], [''c'', ''d'', ''e''], [''e'']]
   \<and> take 2 [''c'', ''d'', ''e''] = drop (4 - 2) [''a'', ''b'', ''c'', ''d'']
   \<and> take 2 [''e''] = drop (4 - 2) [''c'', ''d'', ''e'']"
proof -
  have h1: "0 \<le> chunkOverlap window_4_2" and h2: "chunkOverlap window_4_2 < chunkSize window_4_2"
    by (simp_all add: window_4_2_def)
  have e: "map_option (map chunk_words)
         (chunkDocument id window_4_2 ''a b c d e'' ''component:default/x'' ''x'' ''catalog'')
       = Some [[''a'', ''b'', ''c'', ''d''], [''c'', ''d'', ''e''], [''e'']]"
    by code_simp
  from chunkDocument_overlap [OF h1 h2, of id "''a b c d e''" "''component:default/x''" "''x''"
      "''catalog''"]
  obtain chunks
    where "chunkDocument id window_4_2 ''a b c d e'' ''component:default/x'' ''x'' ''catalog''
             = Some chunks"
    by blast
  with h1 h2 e show ?thesis
    by simp
qed

text \<open>
  A configuration that sets \<open>askAi.chunkSize\<close> to 50 and nothing else: the overlap is
  the default 50, the stride is 0.
\<close>

definition chunkSize_50 :: Config where
  "chunkSize_50 =
     \<lparr>askAi_defaultModel = None, askAi_embeddingModel = None, askAi_ollamaBaseUrl = None,
      askAi_ragEnabled = None, askAi_rag_strategy = None, askAi_defaultTopK = None,
      askAi_chunkSize = Some 50, askAi_chunkOverlap = None, askAi_vectorStore_type = None,
      postgresql_host = None, postgresql_port = None, postgresql_database = None,
      postgresql_user = None, postgresql_password = None, postgresql_ssl = None,
      postgresql_maxConnections = None, postgresql_idleTimeoutMillis = None,
      postgresql_connectionTimeoutMillis = None\<rparr>"

theorem chunkDocument_never_returns_witness:
  "loadVectorStoreConfig chunkSize_50 = Inr \<lparr>store_type = ''memory'', postgresql = None\<rparr>
   \<and> \<not> isl (loadConfig chunkSize_50)
   \<and> chunkSize (projr (loadConfig chunkSize_50)) = 50
   \<and> chunkOverlap (projr (loadConfig chunkSize_50)) = 50
   \<and> trim (extractText id ''Service X handles payments.'') \<noteq> []
   \<and> chunkDocument id (projr (loadConfig chunkSize_50)) ''Service X handles payments.''
         ''component:default/x'' ''x'' ''catalog'' = None"
proof -
  have v: "loadVectorStoreConfig chunkSize_50 = Inr \<lparr>store_type = ''memory'', postgresql = None\<rparr>"
    by (simp add: loadVectorStoreConfig_def chunkSize_50_def)
  have t: "trim (extractText id ''Service X handles payments.'') \<noteq> []"
    by code_simp
  from chunkDocument_never_returns [OF v, of id "''Service X handles payments.''"
      "''component:default/x''" "''x''" "''catalog''"]
  obtain config where c: "loadConfig chunkSize_50 = Inr config"
    and s: "chunkSize config = number_or (askAi_chunkSize chunkSize_50) 512"
    and o: "chunkOverlap config = number_or (askAi_chunkOverlap chunkSize_50) 50"
    and d: "chunkSize config \<le> chunkOverlap config
              \<and> trim (extractText id ''Service X handles payments.'') \<noteq> [] \<longrightarrow>
            chunkDocument id config ''Service X handles payments.''
              ''component:default/x'' ''x'' ''catalog'' = None"
    by blast
  have s': "chunkSize config = 50" and o': "chunkOverlap config = 50"
    using s o by (simp_all add: number_or_def chunkSize_50_def)
  with d t have "chunkDocument id config ''Service X handles payments.''
              ''component:default/x'' ''x'' ''catalog'' = None"
    by simp
  with v c s' o' t show ?thesis
    by simp
qed

end
